theory Spec2Isabelle
  imports Main "HOL-Library.Char_ord" "HOL-Library.List_Lexorder" "HOL-Library.Multiset"
begin

section \<open>Strings\<close>

text \<open>
  Python strings are sequences of code points. A \<^typ>\<open>char\<close> is one code point below 256
  (ASCII and the Latin-1 supplement), where \<open>str.lower\<close>, \<open>str.isspace\<close> and the regular
  expressions of the program behave as written below; a \<^typ>\<open>string\<close> is a list of them.
\<close>

definition char_code :: "char \<Rightarrow> nat" where
  "char_code c = of_char c"

text \<open>
  \<open>str.lower\<close>: the ASCII capitals and the capitals of the Latin-1 supplement (all of
  \<open>U+00C0\<close> to \<open>U+00DE\<close> but the multiplication sign) move up by 32.
\<close>

definition lower_char :: "char \<Rightarrow> char" where
  "lower_char c =
     (let n = char_code c in
      if 65 \<le> n \<and> n \<le> 90 then char_of (n + 32)
      else if 192 \<le> n \<and> n \<le> 222 \<and> n \<noteq> 215 then char_of (n + 32)
      else c)"

definition py_lower :: "string \<Rightarrow> string" where
  "py_lower s = map lower_char s"

text \<open>
  The characters \<open>str.strip()\<close> removes: those for which \<open>str.isspace\<close> holds.
\<close>

definition is_space :: "char \<Rightarrow> bool" where
  "is_space c =
     (let n = char_code c in
      (9 \<le> n \<and> n \<le> 13) \<or> (28 \<le> n \<and> n \<le> 32) \<or> n = 133 \<or> n = 160)"

text \<open>\<open>str.strip\<close> removes the characters of a class from both ends.\<close>

definition rstrip :: "(char \<Rightarrow> bool) \<Rightarrow> string \<Rightarrow> string" where
  "rstrip P s = rev (dropWhile P (rev s))"

definition py_strip :: "(char \<Rightarrow> bool) \<Rightarrow> string \<Rightarrow> string" where
  "py_strip P s = rstrip P (dropWhile P s)"

text \<open>The character classes \<open>[a-z]\<close>, \<open>[0-9]\<close> and \<open>[a-z0-9_-]\<close>.\<close>

definition is_lower_az :: "char \<Rightarrow> bool" where
  "is_lower_az c = (97 \<le> char_code c \<and> char_code c \<le> 122)"

definition is_digit :: "char \<Rightarrow> bool" where
  "is_digit c = (48 \<le> char_code c \<and> char_code c \<le> 57)"

definition name_char :: "char \<Rightarrow> bool" where
  "name_char c = (is_lower_az c \<or> is_digit c \<or> c = CHR ''_'' \<or> c = CHR ''-'')"

text \<open>
  \<open>re.sub(r"[class]+", r, s)\<close>: every maximal run of characters of the class is replaced
  by \<open>r\<close>.
\<close>

function sub_runs :: "(char \<Rightarrow> bool) \<Rightarrow> string \<Rightarrow> string \<Rightarrow> string" where
  "sub_runs P r [] = []"
| "sub_runs P r (c # cs) =
     (if P c then r @ sub_runs P r (dropWhile P cs) else c # sub_runs P r cs)"
  by pat_completeness auto
termination
  by (relation "measure (\<lambda>(P, r, s). length s)")
     (auto simp: length_dropWhile_le less_Suc_eq_le)

section \<open>Name sanitization\<close>

definition sanitize_name :: "string \<Rightarrow> string" where
  "sanitize_name name =
     (if name = [] then []
      else
        let s = py_lower (py_strip is_space name);
            s = sub_runs (\<lambda>c. \<not> name_char c) ''_'' s;
            s = sub_runs (\<lambda>c. c = CHR ''_'') ''_'' s
        in py_strip (\<lambda>c. c = CHR ''_'') s)"

text \<open>
  The sanitization as the specification words it: lowercase the input, replace every
  maximal run of characters outside \<open>[a-z0-9_-]\<close> by one underscore, collapse repeated
  underscores, strip leading and trailing underscores.
\<close>

definition sanitize_spec :: "string \<Rightarrow> string" where
  "sanitize_spec s =
     py_strip (\<lambda>c. c = CHR ''_'')
       (sub_runs (\<lambda>c. c = CHR ''_'') ''_''
         (sub_runs (\<lambda>c. \<not> name_char c) ''_'' (py_lower s)))"

text \<open>
  A clean name has only characters of \<open>[a-z0-9_-]\<close>, no two adjacent underscores, and no
  underscore at either end. A separator is a character that ends up as an underscore.
\<close>

fun no_double_underscore :: "string \<Rightarrow> bool" where
  "no_double_underscore (a # b # cs) =
     (\<not> (a = CHR ''_'' \<and> b = CHR ''_'') \<and> no_double_underscore (b # cs))"
| "no_double_underscore cs = True"

definition clean_name :: "string \<Rightarrow> bool" where
  "clean_name s =
     (list_all name_char s \<and> no_double_underscore s \<and>
      (s = [] \<or> (hd s \<noteq> CHR ''_'' \<and> last s \<noteq> CHR ''_'')))"

definition sep_char :: "char \<Rightarrow> bool" where
  "sep_char c = (\<not> name_char c \<or> c = CHR ''_'')"

section \<open>Tables and errors\<close>

text \<open>
  A cell of a parsed CSV file is an integer, a floating point number, a text, or the
  missing marker. An integer is a cell of an integer column, which the library stores in
  64 bits; the floating point numbers are the values of a type \<open>'n\<close>, which is a
  parameter. A data frame has its column labels in declared order and its rows; a row
  that is shorter than the header reads as missing cells.
\<close>

datatype 'n cell = IntNum int | FloatNum 'n | Text string | NaN

record 'n frame =
  columns :: "string list"
  rows :: "'n cell list list"

text \<open>
  The keys \<open>"x"\<close>, \<open>"y"\<close>, \<open>"z"\<close> of an axis mapping. The dictionary of
  \<open>detect_xyz_columns\<close> is a map from these keys to column names. The keys can be
  enumerated, so the equality of two mappings can be computed.
\<close>

datatype axis = X | Y | Z

instantiation axis :: enum
begin

definition enum_axis :: "axis list" where
  "enum_axis = [X, Y, Z]"

definition enum_all_axis :: "(axis \<Rightarrow> bool) \<Rightarrow> bool" where
  "enum_all_axis P = (P X \<and> P Y \<and> P Z)"

definition enum_ex_axis :: "(axis \<Rightarrow> bool) \<Rightarrow> bool" where
  "enum_ex_axis P = (P X \<or> P Y \<or> P Z)"

instance
proof
  have u: "(UNIV :: axis set) = {X, Y, Z}"
    using axis.exhaust by blast
  show "(UNIV :: axis set) = set enum_class.enum"
    by (simp add: enum_axis_def u)
  show "distinct (enum_class.enum :: axis list)"
    by (simp add: enum_axis_def)
  show "enum_class.enum_all P = Ball (UNIV :: axis set) P" for P
    by (simp add: enum_all_axis_def u)
  show "enum_class.enum_ex P = Bex (UNIV :: axis set) P" for P
    by (simp add: enum_ex_axis_def u)
qed

end

type_synonym axis_map = "axis \<Rightarrow> string option"

text \<open>
  The exceptions of the program as values: \<open>IndexError\<close> for \<open>df.columns[0]\<close> on a table
  with no column; \<open>ValueError\<close>, raised by \<open>detect_xyz_columns\<close>, with the columns and the
  partial mapping of its message; \<open>KeyError\<close> for a missing dictionary key or column
  label; \<open>TypeError\<close> for \<open>pd.to_numeric\<close> applied to several columns at once; and
  \<open>LabelError\<close> for the join refusing a key label that is not unique in an operand (a
  \<open>ValueError\<close> of pandas).
\<close>

datatype error =
  IndexError
| ValueError "string list" axis_map
| KeyError string
| TypeError
| LabelError string

section \<open>Column detector\<close>

text \<open>\<open>s.startswith(p)\<close> and \<open>s.endswith(p)\<close>.\<close>

definition starts_with :: "string \<Rightarrow> string \<Rightarrow> bool" where
  "starts_with s p = (take (length p) s = p)"

definition ends_with :: "string \<Rightarrow> string \<Rightarrow> bool" where
  "ends_with s p = starts_with (rev s) (rev p)"

text \<open>\<open>p in s\<close> on strings.\<close>

fun contains :: "string \<Rightarrow> string \<Rightarrow> bool" where
  "contains [] p = (p = [])"
| "contains (c # cs) p = (starts_with (c # cs) p \<or> contains cs p)"

text \<open>
  \<open>re.search(r"a|b|c", s, flags=re.I)\<close> for lowercase literal alternatives: some
  alternative occurs in \<open>s\<close>, ignoring case.
\<close>

definition re_search_ci :: "string list \<Rightarrow> string \<Rightarrow> bool" where
  "re_search_ci alts s = list_ex (contains (py_lower s)) alts"

text \<open>
  \<open>choose_timestamp_column\<close>: the patterns in their order and, for each, the columns in
  declared order; the first match is returned. When no pattern matches any column, the
  first column is returned, and \<open>df.columns[0]\<close> raises \<open>IndexError\<close> when there is none.
\<close>

definition TS_PATTERNS :: "string list" where
  "TS_PATTERNS = [''time'', ''timestamp'', ''ts'', ''seconds'', ''sec'', ''elapsed'']"

fun first_match :: "string list \<Rightarrow> string list \<Rightarrow> string option" where
  "first_match [] cols = None"
| "first_match (p # ps) cols =
     (case find (re_search_ci [p]) cols of
        Some c \<Rightarrow> Some c
      | None \<Rightarrow> first_match ps cols)"

definition choose_timestamp_column :: "'n frame \<Rightarrow> error + string" where
  "choose_timestamp_column df =
     (case first_match TS_PATTERNS (columns df) of
        Some c \<Rightarrow> Inr c
      | None \<Rightarrow> (case columns df of [] \<Rightarrow> Inl IndexError | c # _ \<Rightarrow> Inr c))"

text \<open>
  \<open>detect_xyz_columns\<close>. The first loop skips the columns that look like a timestamp,
  splits the lowercased name of each other column into its tokens, and gives the column
  to every axis whose letter is one of the tokens and which has no column yet.
\<close>

definition TIME_LIKE :: "string list" where
  "TIME_LIKE = [''time'', ''timestamp'', ''sec'', ''elapsed'']"

definition alnum_lower :: "char \<Rightarrow> bool" where
  "alnum_lower c = (is_lower_az c \<or> is_digit c)"

text \<open>\<open>re.split\<close> on the runs of a character class: empty pieces at the ends are kept.\<close>

function re_split :: "(char \<Rightarrow> bool) \<Rightarrow> string \<Rightarrow> string list" where
  "re_split P s =
     (let w = takeWhile (\<lambda>c. \<not> P c) s; rest = dropWhile (\<lambda>c. \<not> P c) s
      in if rest = [] then [w] else w # re_split P (dropWhile P (tl rest)))"
  by pat_completeness auto
termination
proof (relation "measure (\<lambda>(P, s). length s)")
  show "wf (measure (\<lambda>(P, s). length s))" by simp
next
  fix P :: "char \<Rightarrow> bool" and s w rest
  assume r: "rest = dropWhile (\<lambda>c. \<not> P c) s" and ne: "rest \<noteq> []"
  have "length (dropWhile P (tl rest)) \<le> length (tl rest)"
    by (rule length_dropWhile_le)
  also have "\<dots> < length rest" using ne by (cases rest) auto
  also have "\<dots> \<le> length s" unfolding r by (rule length_dropWhile_le)
  finally show "((P, dropWhile P (tl rest)), (P, s)) \<in> measure (\<lambda>(P, s). length s)"
    by simp
qed

definition tokens_of :: "string \<Rightarrow> string list" where
  "tokens_of low = filter (\<lambda>t. t \<noteq> []) (re_split (\<lambda>c. \<not> alnum_lower c) low)"

fun axis_name :: "axis \<Rightarrow> string" where
  "axis_name X = ''x''"
| "axis_name Y = ''y''"
| "axis_name Z = ''z''"

definition AXES :: "axis list" where
  "AXES = [X, Y, Z]"

definition token_step :: "string \<Rightarrow> axis_map \<Rightarrow> axis_map" where
  "token_step col mapping =
     (if re_search_ci TIME_LIKE col then mapping
      else
        let tokens = tokens_of (py_lower col)
        in fold (\<lambda>axis m. if axis_name axis \<in> set tokens \<and> m axis = None
                           then m(axis \<mapsto> col) else m) AXES mapping)"

definition token_pass :: "string list \<Rightarrow> axis_map \<Rightarrow> axis_map" where
  "token_pass cols mapping = fold token_step cols mapping"

text \<open>
  The second loop gives an axis that is still missing the first column whose lowercased
  name ends with the axis letter. The third loop gives an axis that is still missing the
  last column whose stripped, lowercased name is the axis letter: it has no test that
  stops at the first match.
\<close>

definition suffix_pass :: "string list \<Rightarrow> axis_map \<Rightarrow> axis_map" where
  "suffix_pass cols mapping =
     fold (\<lambda>axis m.
        if m axis = None
        then fold (\<lambda>col m'. if ends_with (py_lower col) (axis_name axis) \<and> m' axis = None
                             then m'(axis \<mapsto> col) else m') cols m
        else m) AXES mapping"

definition exact_pass :: "string list \<Rightarrow> axis_map \<Rightarrow> axis_map" where
  "exact_pass cols mapping =
     fold (\<lambda>axis m.
        if m axis = None
        then fold (\<lambda>col m'. if py_lower (py_strip is_space col) = axis_name axis
                             then m'(axis \<mapsto> col) else m') cols m
        else m) AXES mapping"

text \<open>\<open>len(mapping)\<close>, and the function itself: the three loops, then the length test.\<close>

definition map_len :: "axis_map \<Rightarrow> nat" where
  "map_len m = length (filter (\<lambda>a. m a \<noteq> None) AXES)"

definition axis_passes :: "string list \<Rightarrow> axis_map" where
  "axis_passes cols = exact_pass cols (suffix_pass cols (token_pass cols Map.empty))"

definition detect_xyz_columns :: "'n frame \<Rightarrow> error + axis_map" where
  "detect_xyz_columns df =
     (let cols = columns df; mapping = axis_passes cols
      in if map_len mapping \<noteq> 3 then Inl (ValueError cols mapping) else Inr mapping)"

text \<open>The test each pass of \<open>detect_xyz_columns\<close> applies to a column, for one axis.\<close>

definition token_match :: "axis \<Rightarrow> string \<Rightarrow> bool" where
  "token_match a col =
     (\<not> re_search_ci TIME_LIKE col \<and> axis_name a \<in> set (tokens_of (py_lower col)))"

definition suffix_match :: "axis \<Rightarrow> string \<Rightarrow> bool" where
  "suffix_match a col = ends_with (py_lower col) (axis_name a)"

definition exact_match :: "axis \<Rightarrow> string \<Rightarrow> bool" where
  "exact_match a col = (py_lower (py_strip is_space col) = axis_name a)"


section \<open>Locating the sensor files of a session\<close>

text \<open>
  \<open>os.path.join\<close> of two components, with the POSIX separator. The directory is seen
  through what the function reads of it: the names \<open>os.listdir\<close> returns, in any order,
  and the predicate \<open>os.path.isfile\<close> on paths. \<open>sorted\<close> compares strings code point
  by code point, which is the lexicographic order of \<^typ>\<open>string\<close>.
\<close>

definition path_join :: "string \<Rightarrow> string \<Rightarrow> string" where
  "path_join a b =
     (if starts_with b ''/'' then b
      else if a = [] \<or> ends_with a ''/'' then a @ b
      else a @ ''/'' @ b)"

definition ACCEL_KEYWORDS :: "string list" where
  "ACCEL_KEYWORDS = [''accelerometer'', ''accel'']"

definition GYRO_KEYWORDS :: "string list" where
  "GYRO_KEYWORDS = [''gyroscope'', ''gyro'']"

definition sensor_match :: "string list \<Rightarrow> string \<Rightarrow> bool" where
  "sensor_match keywords low = (ends_with low ''.csv'' \<and> list_ex (contains low) keywords)"

definition scan_step ::
  "(string \<Rightarrow> bool) \<Rightarrow> string \<Rightarrow> string \<Rightarrow> string option \<times> string option \<Rightarrow>
   string option \<times> string option" where
  "scan_step isfile session_dir f st =
     (let p = path_join session_dir f
      in if \<not> isfile p then st
         else
           let low = py_lower f;
               accel = (if sensor_match ACCEL_KEYWORDS low then Some p else fst st);
               gyro = (if sensor_match GYRO_KEYWORDS low then Some p else snd st)
           in (accel, gyro))"

definition find_sensor_files_in_session ::
  "(string \<Rightarrow> bool) \<Rightarrow> string list \<Rightarrow> string \<Rightarrow> string option \<times> string option" where
  "find_sensor_files_in_session isfile listing session_dir =
     fold (scan_step isfile session_dir) (sort listing) (None, None)"

text \<open>
  The test \<open>not accel_path or not gyro_path\<close> of \<open>main\<close>, under which a session is
  skipped: a path that is \<open>None\<close> or the empty string is false.
\<close>

definition session_skipped :: "string option \<times> string option \<Rightarrow> bool" where
  "session_skipped r =
     (fst r = None \<or> fst r = Some [] \<or> snd r = None \<or> snd r = Some [])"

text \<open>The names of a listing that are regular files and match a keyword set.\<close>

definition sensor_names ::
  "(string \<Rightarrow> bool) \<Rightarrow> string list \<Rightarrow> string \<Rightarrow> string list \<Rightarrow> string set" where
  "sensor_names isfile listing session_dir keywords =
     {f \<in> set listing. isfile (path_join session_dir f) \<and> sensor_match keywords (py_lower f)}"

section \<open>Session merger\<close>

subsection \<open>The data frame operations used by the merger\<close>

text \<open>
  The operations of the pandas library that \<open>merge_session\<close> calls, after the library's
  documented behaviour. Labels may repeat in a frame: selecting or renaming columns can
  produce a frame in which two columns carry the same label.
\<close>

text \<open>
  The cell of a row at a position, and the positions of the columns that carry a label.
\<close>

definition cell_at :: "'n cell list \<Rightarrow> nat \<Rightarrow> 'n cell" where
  "cell_at row i = (if i < length row then row ! i else NaN)"

definition positions :: "string \<Rightarrow> string list \<Rightarrow> nat list" where
  "positions l cols = filter (\<lambda>i. cols ! i = l) [0..<length cols]"

text \<open>\<open>df.rename(columns=mapping)\<close>: every label that is a key of the mapping is replaced.\<close>

definition rename_columns :: "(string \<Rightarrow> string option) \<Rightarrow> 'n frame \<Rightarrow> 'n frame" where
  "rename_columns mapping df =
     df\<lparr>columns := map (\<lambda>c. case mapping c of Some c' \<Rightarrow> c' | None \<Rightarrow> c) (columns df)\<rparr>"

text \<open>
  \<open>df[[l1, ..., lk]]\<close>: for each label of the list in turn, every column that carries it;
  \<open>KeyError\<close> when a label is carried by no column.
\<close>

definition select_columns :: "string list \<Rightarrow> 'n frame \<Rightarrow> error + 'n frame" where
  "select_columns labels df =
     (case find (\<lambda>l. l \<notin> set (columns df)) labels of
        Some l \<Rightarrow> Inl (KeyError l)
      | None \<Rightarrow>
          let idxs = concat (map (\<lambda>l. positions l (columns df)) labels)
          in Inr \<lparr>columns = map (\<lambda>i. columns df ! i) idxs,
                  rows = map (\<lambda>r. map (cell_at r) idxs) (rows df)\<rparr>)"

text \<open>
  A column of numbers has one type. It is an integer column only when every cell of it
  is an integer; as soon as one cell is a floating point number or the missing marker,
  the library stores the whole column in floating point. The conversion of an integer
  to floating point is a parameter, \<open>to_float\<close>: it rounds, since not every integer above
  \<open>2^53\<close> is a floating point number.
\<close>

fun is_int_cell :: "'n cell \<Rightarrow> bool" where
  "is_int_cell (IntNum v) = True"
| "is_int_cell (FloatNum x) = False"
| "is_int_cell (Text s) = False"
| "is_int_cell NaN = False"

fun to_float_cell :: "(int \<Rightarrow> 'n) \<Rightarrow> 'n cell \<Rightarrow> 'n cell" where
  "to_float_cell to_float (IntNum v) = FloatNum (to_float v)"
| "to_float_cell to_float (FloatNum x) = FloatNum x"
| "to_float_cell to_float (Text s) = Text s"
| "to_float_cell to_float NaN = NaN"

text \<open>
  The conversion that brings the cells \<open>cs\<close> to one type, for a cell: none when all of
  \<open>cs\<close> are integers, the conversion to floating point otherwise.
\<close>

definition column_cast :: "(int \<Rightarrow> 'n) \<Rightarrow> 'n cell list \<Rightarrow> 'n cell \<Rightarrow> 'n cell" where
  "column_cast to_float cs =
     (if list_all is_int_cell cs then (\<lambda>c. c) else to_float_cell to_float)"

definition update_column ::
  "('n cell \<Rightarrow> 'n cell) \<Rightarrow> nat \<Rightarrow> 'n cell list list \<Rightarrow> 'n cell list list" where
  "update_column f i rs = map (\<lambda>r. r[i := f (cell_at r i)]) rs"

text \<open>
  \<open>pd.to_numeric(..., errors="coerce")\<close> reads every cell of a column as a number. A
  text is read by the parser of numeric literals, which is a parameter, \<open>parse\<close>. The
  parser reads an integer literal twice, as an integer and as a floating point number,
  and a floating point literal as a floating point number; the text of no number is not
  read. An integer cell reads as itself and as its conversion to floating point.
\<close>

datatype 'n literal = IntLit int 'n | FloatLit 'n

fun numeric_reading ::
  "(int \<Rightarrow> 'n) \<Rightarrow> (string \<Rightarrow> 'n literal option) \<Rightarrow> 'n cell \<Rightarrow> 'n literal option" where
  "numeric_reading to_float parse (IntNum v) = Some (IntLit v (to_float v))"
| "numeric_reading to_float parse (FloatNum x) = Some (FloatLit x)"
| "numeric_reading to_float parse (Text s) = parse s"
| "numeric_reading to_float parse NaN = None"

text \<open>
  The column that results is an integer column when every cell was read as an integer
  that fits in 64 bits. Otherwise it is a floating point column: each cell holds the
  floating point number it was read as, or the missing marker when it was not read.
\<close>

definition int64 :: "int \<Rightarrow> bool" where
  "int64 v = (- (2 ^ 63) \<le> v \<and> v < 2 ^ 63)"

fun int_reading :: "'n literal option \<Rightarrow> bool" where
  "int_reading (Some (IntLit v x)) = int64 v"
| "int_reading (Some (FloatLit x)) = False"
| "int_reading None = False"

fun int_form :: "'n literal option \<Rightarrow> 'n cell" where
  "int_form (Some (IntLit v x)) = IntNum v"
| "int_form (Some (FloatLit x)) = FloatNum x"
| "int_form None = NaN"

fun float_form :: "'n literal option \<Rightarrow> 'n cell" where
  "float_form (Some (IntLit v x)) = FloatNum x"
| "float_form (Some (FloatLit x)) = FloatNum x"
| "float_form None = NaN"

definition numeric_form :: "'n literal option list \<Rightarrow> 'n literal option \<Rightarrow> 'n cell" where
  "numeric_form rs = (if list_all int_reading rs then int_form else float_form)"

definition to_numeric_cells ::
  "(int \<Rightarrow> 'n) \<Rightarrow> (string \<Rightarrow> 'n literal option) \<Rightarrow> 'n cell list \<Rightarrow> 'n cell list" where
  "to_numeric_cells to_float parse cs =
     (let rs = map (numeric_reading to_float parse) cs
      in map (numeric_form rs) rs)"

text \<open>
  \<open>df[l] = pd.to_numeric(df[l], errors="coerce")\<close>. \<open>df[l]\<close> raises \<open>KeyError\<close> when no column
  carries the label, and is a frame, which \<open>to_numeric\<close> rejects, when several do.
\<close>

definition to_numeric_rows ::
  "(int \<Rightarrow> 'n) \<Rightarrow> (string \<Rightarrow> 'n literal option) \<Rightarrow> nat \<Rightarrow> 'n cell list list \<Rightarrow>
   'n cell list list" where
  "to_numeric_rows to_float parse i rs =
     (let form = numeric_form (map (\<lambda>r. numeric_reading to_float parse (cell_at r i)) rs)
      in update_column (\<lambda>c. form (numeric_reading to_float parse c)) i rs)"

definition to_numeric_column ::
  "(int \<Rightarrow> 'n) \<Rightarrow> (string \<Rightarrow> 'n literal option) \<Rightarrow> string \<Rightarrow> 'n frame \<Rightarrow> error + 'n frame" where
  "to_numeric_column to_float parse l df =
     (case positions l (columns df) of
        [] \<Rightarrow> Inl (KeyError l)
      | [i] \<Rightarrow> Inr (df\<lparr>rows := to_numeric_rows to_float parse i (rows df)\<rparr>)
      | _ \<Rightarrow> Inl TypeError)"

text \<open>
  The order in which a sorted join lists its keys: numbers ascending, and the missing
  marker in a last group of its own. \<open>merge_session\<close> coerces both key columns to numbers
  before the join, and the join brings them to one type, so the keys that reach it are
  either integers only, or floating point numbers and missing markers. For other lists
  of keys the integers are placed before the floating point numbers, and text keys
  after the numbers, in lexicographic order.
\<close>

definition ints_of :: "'n cell list \<Rightarrow> int list" where
  "ints_of ks = List.map_filter (\<lambda>k. case k of IntNum v \<Rightarrow> Some v | _ \<Rightarrow> None) ks"

definition floats_of :: "'n cell list \<Rightarrow> 'n list" where
  "floats_of ks = List.map_filter (\<lambda>k. case k of FloatNum x \<Rightarrow> Some x | _ \<Rightarrow> None) ks"

definition texts_of :: "'n cell list \<Rightarrow> string list" where
  "texts_of ks = List.map_filter (\<lambda>k. case k of Text s \<Rightarrow> Some s | _ \<Rightarrow> None) ks"

definition key_order :: "('n::linorder) cell list \<Rightarrow> 'n cell list" where
  "key_order ks =
     map IntNum (sort (remdups (ints_of ks))) @
     map FloatNum (sort (remdups (floats_of ks))) @
     map Text (sort (remdups (texts_of ks))) @
     (if NaN \<in> set ks then [NaN] else [])"

text \<open>
  \<open>pd.merge(left, right, on=key, how="inner", sort=True)\<close>. The key label must be carried
  by exactly one column of each operand. The two key columns are brought to one type
  before they are compared: when one of them is not an integer column, the integers of
  both are converted to floating point, and the key column of the result holds the
  converted keys. The result has one row for each pair of a left row and a right row
  with equal keys, the keys in sorted order and, for one key, the pairs in the order of
  the left rows, then of the right rows. Two missing keys are equal: rows whose key is
  missing on both sides are matched with each other, which the documentation of the
  library points out as a difference from SQL. The columns are those of the left operand
  followed by those of the right operand without its key; a label other than the key
  that both operands carry gets the suffix \<open>_x\<close> on the left and \<open>_y\<close> on the right.
\<close>

definition joined_row :: "nat \<Rightarrow> nat \<Rightarrow> nat \<Rightarrow> 'n cell list \<Rightarrow> 'n cell list \<Rightarrow> 'n cell list" where
  "joined_row nl nr j lr rr =
     map (cell_at lr) [0..<nl] @ map (cell_at rr) (filter (\<lambda>p. p \<noteq> j) [0..<nr])"

definition merged_columns :: "string \<Rightarrow> nat \<Rightarrow> string list \<Rightarrow> string list \<Rightarrow> string list" where
  "merged_columns key j lcols rcols =
     (let rrest = map (\<lambda>p. rcols ! p) (filter (\<lambda>p. p \<noteq> j) [0..<length rcols]);
          overlap = (\<lambda>c. c \<noteq> key \<and> c \<in> set lcols \<and> c \<in> set rrest)
      in map (\<lambda>c. if overlap c then c @ ''_x'' else c) lcols @
         map (\<lambda>c. if overlap c then c @ ''_y'' else c) rrest)"

definition inner_join_rows ::
  "nat \<Rightarrow> nat \<Rightarrow> nat \<Rightarrow> nat \<Rightarrow> ('n::linorder) cell list list \<Rightarrow> 'n cell list list \<Rightarrow>
   'n cell list list" where
  "inner_join_rows i j nl nr lrows rrows =
     (let lkeys = map (\<lambda>r. cell_at r i) lrows;
          rkeys = map (\<lambda>r. cell_at r j) rrows
      in concat (map (\<lambda>k.
           concat (map (\<lambda>lr.
             map (joined_row nl nr j lr) (filter (\<lambda>rr. cell_at rr j = k) rrows))
             (filter (\<lambda>lr. cell_at lr i = k) lrows)))
           (filter (\<lambda>k. k \<in> set rkeys) (key_order lkeys))))"

definition key_cast ::
  "(int \<Rightarrow> 'n) \<Rightarrow> nat \<Rightarrow> nat \<Rightarrow> 'n cell list list \<Rightarrow> 'n cell list list \<Rightarrow> 'n cell \<Rightarrow> 'n cell" where
  "key_cast to_float i j lrows rrows =
     column_cast to_float (map (\<lambda>r. cell_at r i) lrows @ map (\<lambda>r. cell_at r j) rrows)"

definition pd_merge_inner ::
  "(int \<Rightarrow> 'n) \<Rightarrow> string \<Rightarrow> ('n::linorder) frame \<Rightarrow> 'n frame \<Rightarrow> error + 'n frame" where
  "pd_merge_inner to_float key left right =
     (case positions key (columns left) of
        [] \<Rightarrow> Inl (KeyError key)
      | [i] \<Rightarrow>
          (case positions key (columns right) of
             [] \<Rightarrow> Inl (KeyError key)
           | [j] \<Rightarrow>
               let cast = key_cast to_float i j (rows left) (rows right)
               in Inr \<lparr>columns = merged_columns key j (columns left) (columns right),
                       rows = inner_join_rows i j (length (columns left)) (length (columns right))
                                (update_column cast i (rows left))
                                (update_column cast j (rows right))\<rparr>
           | _ \<Rightarrow> Inl (LabelError key))
      | _ \<Rightarrow> Inl (LabelError key))"

subsection \<open>merge_session\<close>

definition OUTPUT_COLS :: "string list" where
  "OUTPUT_COLS =
     [''timestamp'', ''accel_x'', ''accel_y'', ''accel_z'', ''gyro_x'', ''gyro_y'', ''gyro_z'']"

text \<open>
  \<open>df[[common_ts, m["x"], m["y"], m["z"]]].rename(columns={m["x"]: p_x, m["y"]: p_y,
  m["z"]: p_z})\<close> for the prefix \<open>p\<close> of a sensor. In the dictionary a later entry replaces
  an earlier one with the same key.
\<close>

definition select_sensor ::
  "string \<Rightarrow> string \<Rightarrow> axis_map \<Rightarrow> 'n frame \<Rightarrow> error + 'n frame" where
  "select_sensor prefix common_ts m df =
     (case m X of None \<Rightarrow> Inl (KeyError ''x'') | Some cx \<Rightarrow>
      case m Y of None \<Rightarrow> Inl (KeyError ''y'') | Some cy \<Rightarrow>
      case m Z of None \<Rightarrow> Inl (KeyError ''z'') | Some cz \<Rightarrow>
      case select_columns [common_ts, cx, cy, cz] df of
        Inl e \<Rightarrow> Inl e
      | Inr sel \<Rightarrow>
          Inr (rename_columns
                 (Map.empty(cx \<mapsto> prefix @ ''_x'', cy \<mapsto> prefix @ ''_y'', cz \<mapsto> prefix @ ''_z''))
                 sel))"

text \<open>
  The first steps of \<open>merge_session\<close>: detect the timestamp column of each table and give
  both the same label, which is the detected name when the two tables agree on it and
  \<open>timestamp\<close> otherwise.
\<close>

definition unify_timestamps ::
  "'n frame \<Rightarrow> 'n frame \<Rightarrow> error + (string \<times> 'n frame \<times> 'n frame)" where
  "unify_timestamps a g =
     (case choose_timestamp_column a of Inl e \<Rightarrow> Inl e | Inr ts_a \<Rightarrow>
      case choose_timestamp_column g of Inl e \<Rightarrow> Inl e | Inr ts_g \<Rightarrow>
      let common_ts = (if ts_a = ts_g then ts_a else ''timestamp'');
          a1 = (if common_ts \<noteq> ts_a then rename_columns [ts_a \<mapsto> common_ts] a else a);
          g1 = (if common_ts \<noteq> ts_g then rename_columns [ts_g \<mapsto> common_ts] g else g)
      in Inr (common_ts, a1, g1))"

text \<open>
  Then detect the axes, select and rename. The result is the common label and the two
  selections.
\<close>

definition prepare_session ::
  "'n frame \<Rightarrow> 'n frame \<Rightarrow> error + (string \<times> 'n frame \<times> 'n frame)" where
  "prepare_session a g =
     (case unify_timestamps a g of Inl e \<Rightarrow> Inl e | Inr (common_ts, a1, g1) \<Rightarrow>
      case detect_xyz_columns a1 of Inl e \<Rightarrow> Inl e | Inr am \<Rightarrow>
      case detect_xyz_columns g1 of Inl e \<Rightarrow> Inl e | Inr gm \<Rightarrow>
      case select_sensor ''accel'' common_ts am a1 of Inl e \<Rightarrow> Inl e | Inr a_sel \<Rightarrow>
      case select_sensor ''gyro'' common_ts gm g1 of Inl e \<Rightarrow> Inl e | Inr g_sel \<Rightarrow>
      Inr (common_ts, a_sel, g_sel))"

text \<open>
  The \<open>try\<close> block: the two conversions in turn; an exception in the first leaves both
  selections as they are, one in the second keeps the first conversion.
\<close>

definition coerce_timestamps ::
  "(int \<Rightarrow> 'n) \<Rightarrow> (string \<Rightarrow> 'n literal option) \<Rightarrow> string \<Rightarrow> 'n frame \<Rightarrow> 'n frame \<Rightarrow>
   'n frame \<times> 'n frame" where
  "coerce_timestamps to_float parse common_ts a_sel g_sel =
     (case to_numeric_column to_float parse common_ts a_sel of
        Inl e \<Rightarrow> (a_sel, g_sel)
      | Inr a2 \<Rightarrow>
          (case to_numeric_column to_float parse common_ts g_sel of
             Inl e \<Rightarrow> (a2, g_sel)
           | Inr g2 \<Rightarrow> (a2, g2)))"

text \<open>The second half: coerce the timestamps, join, rename the key, order the columns.\<close>

definition join_session ::
  "(int \<Rightarrow> 'n) \<Rightarrow> (string \<Rightarrow> 'n literal option) \<Rightarrow> string \<Rightarrow> ('n::linorder) frame \<Rightarrow> 'n frame \<Rightarrow>
   error + 'n frame" where
  "join_session to_float parse common_ts a_sel g_sel =
     (let (a2, g2) = coerce_timestamps to_float parse common_ts a_sel g_sel
      in case pd_merge_inner to_float common_ts a2 g2 of
           Inl e \<Rightarrow> Inl e
         | Inr merged \<Rightarrow>
             let merged' = (if common_ts \<noteq> ''timestamp''
                            then rename_columns [common_ts \<mapsto> ''timestamp''] merged
                            else merged);
                 cols_present = filter (\<lambda>c. c \<in> set (columns merged')) OUTPUT_COLS
             in select_columns cols_present merged')"

text \<open>
  \<open>merge_session\<close>, from the two tables that \<open>safe_read_csv\<close> returned. An exception of
  either half is the exception of the function.
\<close>

definition merge_session ::
  "(int \<Rightarrow> 'n) \<Rightarrow> (string \<Rightarrow> 'n literal option) \<Rightarrow> ('n::linorder) frame \<Rightarrow> 'n frame \<Rightarrow>
   error + 'n frame" where
  "merge_session to_float parse a g =
     (case prepare_session a g of
        Inl e \<Rightarrow> Inl e
      | Inr (common_ts, a_sel, g_sel) \<Rightarrow> join_session to_float parse common_ts a_sel g_sel)"

subsection \<open>Vocabulary of the claims about merge_session\<close>

text \<open>
  A pair of tables is ready for the merge when timestamp and axis detection succeed on
  both and, in each table, the common timestamp label is carried by a single column that
  is not also selected as an axis column. These are the pairs on which \<open>merge_session\<close>
  raises no exception.
\<close>

definition ts_single :: "string \<Rightarrow> axis_map \<Rightarrow> 'n frame \<Rightarrow> bool" where
  "ts_single common_ts m df =
     (length (positions common_ts (columns df)) = 1 \<and>
      m X \<noteq> Some common_ts \<and> m Y \<noteq> Some common_ts \<and> m Z \<noteq> Some common_ts)"

definition session_ready :: "'n frame \<Rightarrow> 'n frame \<Rightarrow> bool" where
  "session_ready a g =
     (case unify_timestamps a g of Inl e \<Rightarrow> False | Inr (common_ts, a1, g1) \<Rightarrow>
      case detect_xyz_columns a1 of Inl e \<Rightarrow> False | Inr am \<Rightarrow>
      case detect_xyz_columns g1 of Inl e \<Rightarrow> False | Inr gm \<Rightarrow>
      ts_single common_ts am a1 \<and> ts_single common_ts gm g1)"

text \<open>The cells of the first column that carries a label.\<close>

definition column_cells :: "string \<Rightarrow> 'n frame \<Rightarrow> 'n cell list" where
  "column_cells l df =
     (case positions l (columns df) of
        [] \<Rightarrow> []
      | i # _ \<Rightarrow> map (\<lambda>r. cell_at r i) (rows df))"

text \<open>
  The timestamps of an input table after the coercion to numbers, and the timestamps of
  the two tables as the join compares them: brought to one type.
\<close>

definition timestamp_values ::
  "(int \<Rightarrow> 'n) \<Rightarrow> (string \<Rightarrow> 'n literal option) \<Rightarrow> 'n frame \<Rightarrow> 'n cell list" where
  "timestamp_values to_float parse df =
     (case choose_timestamp_column df of
        Inl e \<Rightarrow> []
      | Inr ts \<Rightarrow> to_numeric_cells to_float parse (column_cells ts df))"

definition join_stamps ::
  "(int \<Rightarrow> 'n) \<Rightarrow> (string \<Rightarrow> 'n literal option) \<Rightarrow> 'n frame \<Rightarrow> 'n frame \<Rightarrow>
   'n cell list \<times> 'n cell list" where
  "join_stamps to_float parse a g =
     (let ka = timestamp_values to_float parse a;
          kg = timestamp_values to_float parse g;
          cast = column_cast to_float (ka @ kg)
      in (map cast ka, map cast kg))"

subsection \<open>Example tables\<close>

text \<open>
  The floating point numbers of the examples are whole numbers, written as the integers
  they are equal to, and the conversion of an integer to floating point is the one of
  the 64-bit binary format: to the nearest number with a significand of 53 bits, a tie
  going to the even significand.
\<close>

function bit_length :: "int \<Rightarrow> nat" where
  "bit_length m = (if m \<le> 0 then 0 else Suc (bit_length (m div 2)))"
  by pat_completeness auto

termination
  by (relation "measure nat") auto

declare bit_length.simps [simp del]

definition f64_of_int :: "int \<Rightarrow> int" where
  "f64_of_int v =
     (let m = abs v;
          e = bit_length m - 53;
          q = m div 2 ^ e;
          r = m mod 2 ^ e;
          q' = (if 2 ^ e < 2 * r \<or> (2 ^ e = 2 * r \<and> odd q) then q + 1 else q)
      in sgn v * (q' * 2 ^ e))"

text \<open>
  A parser of unsigned decimal integers stands for the parser of numeric literals in the
  examples: \<open>12\<close> parses, \<open>abc\<close> and \<open>xyz\<close> do not.
\<close>

definition parse_digits :: "string \<Rightarrow> int literal option" where
  "parse_digits s =
     (if s \<noteq> [] \<and> list_all is_digit s
      then let n = foldl (\<lambda>n c. 10 * n + int (char_code c - 48)) 0 s
           in Some (IntLit n (f64_of_int n))
      else None)"

definition accel_example :: "int frame" where
  "accel_example =
     \<lparr>columns = [''time'', ''ax'', ''ay'', ''az''],
      rows = [[IntNum 3, IntNum 30, IntNum 31, IntNum 32],
              [IntNum 1, IntNum 10, IntNum 11, IntNum 12],
              [IntNum 2, IntNum 20, IntNum 21, IntNum 22]]\<rparr>"

definition gyro_example :: "int frame" where
  "gyro_example =
     \<lparr>columns = [''Timestamp'', ''gyro_x'', ''gyro_y'', ''gyro_z''],
      rows = [[IntNum 4, IntNum 40, IntNum 41, IntNum 42],
              [IntNum 2, IntNum 50, IntNum 51, IntNum 52],
              [IntNum 3, IntNum 60, IntNum 61, IntNum 62]]\<rparr>"

definition gyro_late :: "int frame" where
  "gyro_late =
     \<lparr>columns = [''Timestamp'', ''gyro_x'', ''gyro_y'', ''gyro_z''],
      rows = [[IntNum 7, IntNum 40, IntNum 41, IntNum 42],
              [IntNum 8, IntNum 50, IntNum 51, IntNum 52]]\<rparr>"

text \<open>A table with no z axis, and two tables whose only columns are the axes.\<close>

definition accel_no_z :: "int frame" where
  "accel_no_z =
     \<lparr>columns = [''timestamp'', ''x'', ''y''],
      rows = [[IntNum 1, IntNum 10, IntNum 11], [IntNum 2, IntNum 20, IntNum 21], [IntNum 3, IntNum 30, IntNum 31]]\<rparr>"

definition accel_axes_only :: "int frame" where
  "accel_axes_only =
     \<lparr>columns = [''x'', ''y'', ''z''],
      rows = [[IntNum 1, IntNum 11, IntNum 12], [IntNum 2, IntNum 21, IntNum 22], [IntNum 3, IntNum 31, IntNum 32]]\<rparr>"

definition gyro_axes_only :: "int frame" where
  "gyro_axes_only =
     \<lparr>columns = [''x'', ''y'', ''z''],
      rows = [[IntNum 2, IntNum 51, IntNum 52], [IntNum 3, IntNum 61, IntNum 62], [IntNum 4, IntNum 41, IntNum 42]]\<rparr>"

definition gyro_axes_late :: "int frame" where
  "gyro_axes_late =
     \<lparr>columns = [''x'', ''y'', ''z''],
      rows = [[IntNum 7, IntNum 51, IntNum 52], [IntNum 8, IntNum 61, IntNum 62]]\<rparr>"

text \<open>Tables in which a timestamp is not a number.\<close>

definition accel_bad_stamp :: "int frame" where
  "accel_bad_stamp =
     \<lparr>columns = [''timestamp'', ''x'', ''y'', ''z''],
      rows = [[Text ''abc'', IntNum 10, IntNum 11, IntNum 12], [Text ''5'', IntNum 20, IntNum 21, IntNum 22]]\<rparr>"

definition gyro_bad_stamp :: "int frame" where
  "gyro_bad_stamp =
     \<lparr>columns = [''timestamp'', ''x'', ''y'', ''z''],
      rows = [[Text ''xyz'', IntNum 40, IntNum 41, IntNum 42], [Text ''7'', IntNum 50, IntNum 51, IntNum 52]]\<rparr>"



text \<open>
  Tables with timestamps above \<open>2^53\<close>: \<open>9007199254740992\<close> is \<open>2^53\<close>, and the next integer
  is not a floating point number.
\<close>

definition accel_big :: "int frame" where
  "accel_big =
     \<lparr>columns = [''timestamp'', ''x'', ''y'', ''z''],
      rows = [[Text ''abc'', IntNum 10, IntNum 11, IntNum 12],
              [Text ''9007199254740992'', IntNum 20, IntNum 21, IntNum 22]]\<rparr>"

definition gyro_big :: "int frame" where
  "gyro_big =
     \<lparr>columns = [''timestamp'', ''x'', ''y'', ''z''],
      rows = [[IntNum 9007199254740993, IntNum 40, IntNum 41, IntNum 42]]\<rparr>"

section \<open>Properties of sanitize_name\<close>

lemma dropWhile_all: "\<forall>x\<in>set xs. P x \<Longrightarrow> dropWhile P xs = []"
  by simp

lemma rstrip_Nil [simp]: "rstrip P [] = []"
  by (simp add: rstrip_def)

lemma rstrip_Cons:
  "rstrip P (c # u) = (if P c \<and> (\<forall>x\<in>set u. P x) then [] else c # rstrip P u)"
  by (auto simp: rstrip_def dropWhile_append)

lemma rstrip_all: "\<forall>x\<in>set xs. P x \<Longrightarrow> rstrip P xs = []"
  by (simp add: rstrip_def)

lemma rstrip_append_keep:
  "\<not> (\<forall>x\<in>set ys. P x) \<Longrightarrow> rstrip P (xs @ ys) = xs @ rstrip P ys"
  by (induction xs) (auto simp: rstrip_Cons)

lemma rstrip_hd:
  "\<not> P c \<Longrightarrow> rstrip P (c # cs) = c # rstrip P cs"
  by (simp add: rstrip_Cons)

lemma rstrip_dropWhile_commute:
  "rstrip P (dropWhile P xs) = dropWhile P (rstrip P xs)"
proof (cases "\<forall>x\<in>set xs. P x")
  case True
  then show ?thesis by (simp add: dropWhile_all rstrip_all)
next
  case False
  define tk where "tk = takeWhile P xs"
  define rest where "rest = dropWhile P xs"
  have xs: "xs = tk @ rest" by (simp add: tk_def rest_def)
  have rest_ne: "rest \<noteq> []" using False by (simp add: rest_def)
  then obtain r rs where r: "rest = r # rs" by (cases rest) auto
  have npr: "\<not> P r" using r unfolding rest_def
    by (metis hd_dropWhile list.sel(1) list.distinct(1))
  have tk_all: "\<forall>x\<in>set tk. P x" unfolding tk_def by (metis set_takeWhileD)
  have ex: "\<not> (\<forall>x\<in>set rest. P x)" using npr r by auto
  have "rstrip P xs = tk @ r # rstrip P rs"
    using ex npr by (simp add: xs rstrip_append_keep r rstrip_hd)
  then have "dropWhile P (rstrip P xs) = r # rstrip P rs"
    using tk_all npr by (simp add: dropWhile_append)
  then show ?thesis using npr by (simp add: rest_def [symmetric] r rstrip_hd)
qed

lemma py_strip_alt: "py_strip P s = dropWhile P (rstrip P s)"
  by (simp add: py_strip_def rstrip_dropWhile_commute)

lemma lstrip_map_lstrip:
  assumes "\<And>c. P c \<Longrightarrow> Q (f c)"
  shows "dropWhile Q (map f (dropWhile P s)) = dropWhile Q (map f s)"
  using assms by (induction s) auto

lemma rstrip_map_rstrip:
  assumes "\<And>c. P c \<Longrightarrow> Q (f c)"
  shows "rstrip Q (map f (rstrip P s)) = rstrip Q (map f s)"
  using lstrip_map_lstrip [of P Q f "rev s", OF assms]
  by (simp add: rstrip_def rev_map)

lemma py_strip_map_py_strip:
  assumes "\<And>c. P c \<Longrightarrow> Q (f c)"
  shows "py_strip Q (map f (py_strip P s)) = py_strip Q (map f s)"
proof -
  have "py_strip Q (map f (py_strip P s)) = dropWhile Q (rstrip Q (map f (rstrip P (dropWhile P s))))"
    unfolding py_strip_alt [of Q] py_strip_def [of P] ..
  also have "\<dots> = dropWhile Q (rstrip Q (map f (dropWhile P s)))"
    by (simp only: rstrip_map_rstrip [of P Q f, OF assms])
  also have "\<dots> = rstrip Q (dropWhile Q (map f (dropWhile P s)))"
    by (simp only: rstrip_dropWhile_commute)
  also have "\<dots> = py_strip Q (map f s)"
    by (simp only: py_strip_def lstrip_map_lstrip [of P Q f s, OF assms])
  finally show ?thesis .
qed

lemma dropWhile_hd_not: "dropWhile P cs = d # ds \<Longrightarrow> \<not> P d"
  by (metis hd_dropWhile list.sel(1) list.distinct(1))

lemma lstrip_sub_runs:
  assumes "P u"
  shows "dropWhile (\<lambda>x. x = u) (sub_runs P [u] t) = sub_runs P [u] (dropWhile P t)"
proof (cases t)
  case Nil
  then show ?thesis by simp
next
  case (Cons c cs)
  show ?thesis
  proof (cases "P c")
    case False
    then have "c \<noteq> u" using assms by auto
    then show ?thesis using False Cons by simp
  next
    case True
    have "dropWhile (\<lambda>x. x = u) (sub_runs P [u] (dropWhile P cs)) = sub_runs P [u] (dropWhile P cs)"
    proof (cases "dropWhile P cs")
      case Nil
      then show ?thesis by (simp only: sub_runs.simps dropWhile.simps)
    next
      case (Cons d ds)
      then have "\<not> P d" by (rule dropWhile_hd_not)
      then have "d \<noteq> u" using assms by auto
      then show ?thesis using Cons \<open>\<not> P d\<close> by simp
    qed
    then show ?thesis using True Cons by simp
  qed
qed

lemma rstrip_sub_runs:
  assumes "P u"
  shows "rstrip (\<lambda>x. x = u) (sub_runs P [u] t) = sub_runs P [u] (rstrip P t)"
proof (induction t rule: length_induct)
  case (1 t)
  show ?case
  proof (cases t)
    case Nil
    then show ?thesis by simp
  next
    case (Cons c cs)
    show ?thesis
    proof (cases "P c")
      case False
      then have cu: "c \<noteq> u" using assms by auto
      have ih: "rstrip (\<lambda>x. x = u) (sub_runs P [u] cs) = sub_runs P [u] (rstrip P cs)"
        using 1 Cons by simp
      show ?thesis
        unfolding Cons using False cu ih by (simp add: rstrip_Cons)
    next
      case True
      show ?thesis
      proof (cases "\<forall>x\<in>set cs. P x")
        case all: True
        then show ?thesis unfolding Cons using True by (simp add: dropWhile_all rstrip_Cons)
      next
        case nall: False
        define v where "v = dropWhile P cs"
        have vne: "v \<noteq> []" using nall by (simp add: v_def)
        then obtain d ds where v: "v = d # ds" by (cases v) auto
        have npd: "\<not> P d" using v unfolding v_def by (rule dropWhile_hd_not)
        have du: "d \<noteq> u" using npd assms by auto
        have len: "length v < length t" unfolding v_def Cons
          by (simp add: length_dropWhile_le less_Suc_eq_le)
        have ih: "rstrip (\<lambda>x. x = u) (sub_runs P [u] v) = sub_runs P [u] (rstrip P v)"
          using 1 len by blast
        have notall: "\<not> (\<forall>x\<in>set (sub_runs P [u] v). x = u)"
          using npd du by (simp add: v)
        have lhs: "rstrip (\<lambda>x. x = u) (sub_runs P [u] t) = u # sub_runs P [u] (rstrip P v)"
          unfolding Cons using True notall ih by (simp add: rstrip_Cons v_def [symmetric])
        have comm: "dropWhile P (rstrip P cs) = rstrip P v"
          unfolding v_def by (simp add: rstrip_dropWhile_commute)
        have rhs: "sub_runs P [u] (rstrip P t) = u # sub_runs P [u] (rstrip P v)"
          unfolding Cons using True nall comm by (simp add: rstrip_Cons)
        show ?thesis using lhs rhs by simp
      qed
    qed
  qed
qed

lemma py_strip_sub_runs:
  assumes "P u"
  shows "py_strip (\<lambda>x. x = u) (sub_runs P [u] t) = sub_runs P [u] (py_strip P t)"
  unfolding py_strip_def
  by (simp only: lstrip_sub_runs [of P, OF assms] rstrip_sub_runs [of P, OF assms])


lemma dropWhile_dropWhile_weaker:
  assumes "\<And>x. P x \<Longrightarrow> Q x"
  shows "dropWhile Q (dropWhile P xs) = dropWhile Q xs"
  using assms by (induction xs) auto

lemma collapse_sub_runs_aux:
  assumes "\<not> P u"
  shows "sub_runs (\<lambda>x. x = u) [u] (sub_runs P [u] t) = sub_runs (\<lambda>x. P x \<or> x = u) [u] t \<and>
         sub_runs (\<lambda>x. x = u) [u] (dropWhile (\<lambda>x. x = u) (sub_runs P [u] t)) =
           sub_runs (\<lambda>x. P x \<or> x = u) [u] (dropWhile (\<lambda>x. P x \<or> x = u) t)"
proof (induction t rule: length_induct)
  case (1 t)
  let ?Q = "\<lambda>x. P x \<or> x = u"
  let ?U = "\<lambda>x. x = u"
  show ?case
  proof (cases t)
    case Nil
    then show ?thesis by simp
  next
    case (Cons c cs)
    have ih_cs: "sub_runs ?U [u] (sub_runs P [u] cs) = sub_runs ?Q [u] cs"
      "sub_runs ?U [u] (dropWhile ?U (sub_runs P [u] cs)) = sub_runs ?Q [u] (dropWhile ?Q cs)"
      using 1 Cons by simp_all
    have len: "length (dropWhile P cs) < length t"
      unfolding Cons by (simp add: length_dropWhile_le less_Suc_eq_le)
    have ih_d: "sub_runs ?U [u] (dropWhile ?U (sub_runs P [u] (dropWhile P cs))) =
                sub_runs ?Q [u] (dropWhile ?Q (dropWhile P cs))"
      using 1 len by blast
    have dd: "dropWhile ?Q (dropWhile P cs) = dropWhile ?Q cs"
      by (rule dropWhile_dropWhile_weaker) simp
    consider (bad) "P c" | (us) "c = u" | (ok) "\<not> P c" "c \<noteq> u" by blast
    then show ?thesis
    proof cases
      case bad
      then show ?thesis unfolding Cons using ih_d dd by simp
    next
      case us
      then show ?thesis unfolding Cons using assms ih_cs by simp
    next
      case ok
      then show ?thesis unfolding Cons using ih_cs by simp
    qed
  qed
qed

lemma collapse_sub_runs:
  "\<not> P u \<Longrightarrow>
   sub_runs (\<lambda>x. x = u) [u] (sub_runs P [u] t) = sub_runs (\<lambda>x. P x \<or> x = u) [u] t"
  using collapse_sub_runs_aux by blast

lemma name_char_underscore: "name_char CHR ''_''"
  by (simp add: name_char_def)

lemma sep_char_underscore: "sep_char CHR ''_''"
  by (simp add: sep_char_def)

lemma sanitize_spec_normal:
  "sanitize_spec s = sub_runs sep_char ''_'' (py_strip sep_char (py_lower s))"
proof -
  have "sub_runs (\<lambda>c. c = CHR ''_'') ''_'' (sub_runs (\<lambda>c. \<not> name_char c) ''_'' t) =
        sub_runs sep_char ''_'' t" for t
    using collapse_sub_runs [of "\<lambda>c. \<not> name_char c" "CHR ''_''" t]
    by (simp add: name_char_underscore sep_char_def [abs_def])
  then show ?thesis
    by (simp add: sanitize_spec_def py_strip_sub_runs [of sep_char, OF sep_char_underscore])
qed

lemma is_space_lower: "is_space c \<Longrightarrow> sep_char (lower_char c)"
  by (auto simp: is_space_def sep_char_def name_char_def lower_char_def char_code_def
      is_lower_az_def is_digit_def Let_def)


lemma sanitize_name_spec: "sanitize_name s = sanitize_spec s"
proof (cases "s = []")
  case True
  then show ?thesis
    by (simp add: sanitize_name_def sanitize_spec_def py_lower_def py_strip_def)
next
  case False
  have "sanitize_name s = sanitize_spec (py_strip is_space s)"
    using False by (simp add: sanitize_name_def sanitize_spec_def Let_def)
  also have "\<dots> = sub_runs sep_char ''_'' (py_strip sep_char (map lower_char (py_strip is_space s)))"
    by (simp add: sanitize_spec_normal py_lower_def)
  also have "\<dots> = sub_runs sep_char ''_'' (py_strip sep_char (map lower_char s))"
    by (simp only: py_strip_map_py_strip [of is_space sep_char lower_char, OF is_space_lower])
  also have "\<dots> = sanitize_spec s"
    by (simp add: sanitize_spec_normal py_lower_def)
  finally show ?thesis .
qed

lemma sub_runs_chars:
  "x \<in> set (sub_runs P [u] t) \<Longrightarrow> x = u \<or> (x \<in> set t \<and> \<not> P x)"
proof (induction P "[u]" t rule: sub_runs.induct)
  case (1 P)
  then show ?case by simp
next
  case (2 P c cs)
  then show ?case
    by (auto split: if_splits dest: set_dropWhileD)
qed

lemma no_double_underscore_Cons:
  "no_double_underscore (a # s) =
     ((s = [] \<or> \<not> (a = CHR ''_'' \<and> hd s = CHR ''_'')) \<and> no_double_underscore s)"
  by (cases s) auto

lemma sub_runs_no_double:
  "P CHR ''_'' \<Longrightarrow> no_double_underscore (sub_runs P ''_'' t)"
proof (induction t rule: length_induct)
  case (1 t)
  show ?case
  proof (cases t)
    case Nil
    then show ?thesis by simp
  next
    case (Cons c cs)
    show ?thesis
    proof (cases "P c")
      case False
      then have "c \<noteq> CHR ''_''" using 1(2) by auto
      moreover have "no_double_underscore (sub_runs P ''_'' cs)" using 1 Cons by simp
      ultimately show ?thesis unfolding Cons using False
        by (simp add: no_double_underscore_Cons)
    next
      case True
      have len: "length (dropWhile P cs) < length t"
        unfolding Cons by (simp add: length_dropWhile_le less_Suc_eq_le)
      have ih: "no_double_underscore (sub_runs P ''_'' (dropWhile P cs))"
        using 1 len by blast
      have "sub_runs P ''_'' (dropWhile P cs) = [] \<or>
            hd (sub_runs P ''_'' (dropWhile P cs)) \<noteq> CHR ''_''"
      proof (cases "dropWhile P cs")
        case Nil
        show ?thesis unfolding Nil by simp
      next
        case (Cons d ds)
        then have "\<not> P d" by (rule dropWhile_hd_not)
        then have "d \<noteq> CHR ''_''" using 1(2) by auto
        then show ?thesis using Cons \<open>\<not> P d\<close> by simp
      qed
      then show ?thesis unfolding Cons using True ih
        by (auto simp: no_double_underscore_Cons)
    qed
  qed
qed

lemma rstrip_last: "rstrip P s \<noteq> [] \<Longrightarrow> \<not> P (last (rstrip P s))"
  unfolding rstrip_def by (metis hd_dropWhile last_rev rev_is_Nil_conv rev_rev_ident)

lemma rstrip_hd_keep: "s \<noteq> [] \<Longrightarrow> \<not> P (hd s) \<Longrightarrow> hd (rstrip P s) = hd s \<and> rstrip P s \<noteq> []"
  by (cases s) (auto simp: rstrip_Cons)

lemma py_strip_ends:
  "py_strip P s = [] \<or> (\<not> P (hd (py_strip P s)) \<and> \<not> P (last (py_strip P s)))"
proof (cases "dropWhile P s")
  case Nil
  show ?thesis unfolding py_strip_def Nil by simp
next
  case (Cons d ds)
  then have "\<not> P d" by (rule dropWhile_hd_not)
  then show ?thesis
    using rstrip_last [of P "dropWhile P s"] rstrip_hd_keep [of "dropWhile P s" P] Cons
    by (auto simp: py_strip_def)
qed

lemma rstrip_id: "s = [] \<or> \<not> P (last s) \<Longrightarrow> rstrip P s = s"
  by (cases s rule: rev_cases) (auto simp: rstrip_def)

lemma py_strip_id: "s = [] \<or> (\<not> P (hd s) \<and> \<not> P (last s)) \<Longrightarrow> py_strip P s = s"
  by (cases s) (auto simp: py_strip_def rstrip_id)

lemma sub_runs_id: "\<forall>x\<in>set t. \<not> P x \<Longrightarrow> sub_runs P r t = t"
  by (induction t) auto

lemma collapse_id:
  "no_double_underscore t \<Longrightarrow> sub_runs (\<lambda>c. c = CHR ''_'') ''_'' t = t"
proof (induction t)
  case Nil
  then show ?case by simp
next
  case (Cons c cs)
  then have ih: "sub_runs (\<lambda>c. c = CHR ''_'') ''_'' cs = cs"
    by (simp add: no_double_underscore_Cons)
  show ?case
  proof (cases "c = CHR ''_''")
    case False
    then show ?thesis using ih by simp
  next
    case True
    then have "cs = [] \<or> hd cs \<noteq> CHR ''_''"
      using Cons.prems by (simp add: no_double_underscore_Cons)
    then have "dropWhile (\<lambda>c. c = CHR ''_'') cs = cs" by (cases cs) auto
    then show ?thesis using True ih by simp
  qed
qed

lemma name_char_lower: "name_char c \<Longrightarrow> lower_char c = c"
  by (auto simp: name_char_def lower_char_def char_code_def is_lower_az_def is_digit_def Let_def)

lemma name_char_not_space: "name_char c \<Longrightarrow> \<not> is_space c"
  by (auto simp: name_char_def is_space_def char_code_def is_lower_az_def is_digit_def Let_def)

lemma sanitize_name_clean: "clean_name (sanitize_name s)"
proof -
  let ?t = "sub_runs sep_char ''_'' (py_strip sep_char (py_lower s))"
  have eq: "sanitize_name s = ?t"
    by (simp add: sanitize_name_spec sanitize_spec_normal)
  have chars: "list_all name_char ?t"
    unfolding list_all_iff
  proof
    fix x assume "x \<in> set ?t"
    then have "x = CHR ''_'' \<or> \<not> sep_char x"
      using sub_runs_chars [of x sep_char "CHR ''_''"] by blast
    then show "name_char x"
      by (auto simp: sep_char_def name_char_underscore)
  qed
  have nd: "no_double_underscore ?t"
    by (rule sub_runs_no_double) (rule sep_char_underscore)
  have ends: "sanitize_name s = [] \<or>
      (hd (sanitize_name s) \<noteq> CHR ''_'' \<and> last (sanitize_name s) \<noteq> CHR ''_'')"
    using py_strip_ends [of "\<lambda>c. c = CHR ''_''"]
    by (auto simp: sanitize_name_def Let_def)
  show ?thesis unfolding clean_name_def using chars nd ends by (simp add: eq)
qed

lemma clean_name_fixed: "clean_name t \<Longrightarrow> sanitize_name t = t"
proof (cases "t = []")
  case True
  then show ?thesis by (simp add: sanitize_name_def)
next
  case False
  assume c: "clean_name t"
  have all: "\<forall>x\<in>set t. name_char x" using c by (simp add: clean_name_def list_all_iff)
  have hl: "hd t \<in> set t" "last t \<in> set t" using False by simp_all
  have s1: "py_strip is_space t = t"
    using all hl by (intro py_strip_id) (auto dest: name_char_not_space)
  have s2: "py_lower t = t"
    unfolding py_lower_def using all by (intro map_idI) (simp add: name_char_lower)
  have s3: "sub_runs (\<lambda>c. \<not> name_char c) ''_'' t = t"
    using all by (intro sub_runs_id) simp
  have s4: "sub_runs (\<lambda>c. c = CHR ''_'') ''_'' t = t"
    using c by (intro collapse_id) (simp add: clean_name_def)
  have s5: "py_strip (\<lambda>c. c = CHR ''_'') t = t"
    using c False by (intro py_strip_id) (simp add: clean_name_def)
  show ?thesis using False by (simp add: sanitize_name_def s1 s2 s3 s4 s5)
qed

text \<open>
  Claim C7. \<open>sanitize_name\<close> computes what the specification describes: lowercase the
  input, replace every maximal run of characters outside \<open>[a-z0-9_-]\<close> by one underscore,
  collapse repeated underscores, strip leading and trailing underscores. The whitespace
  strip of the code changes nothing. The empty string gives the empty string, and the
  example of the specification gives \<open>o_mar_jumps\<close>.
\<close>

theorem sanitize_name_refines_spec:
  "sanitize_name s = sanitize_spec s \<and>
   sanitize_name [] = [] \<and>
   sanitize_name '' O'Mar  Jumps!! '' = ''o_mar_jumps''"
proof -
  have "sanitize_name '' O'Mar  Jumps!! '' = ''o_mar_jumps''" by code_simp
  moreover have "sanitize_name [] = []" by (simp add: sanitize_name_def)
  ultimately show ?thesis using sanitize_name_spec by simp
qed

text \<open>
  Claim C9. \<open>sanitize_name\<close> is idempotent. Every output is clean (only characters of
  \<open>[a-z0-9_-]\<close>, no two adjacent underscores, no leading or trailing underscore), and the
  clean strings are exactly the fixed points.
\<close>

theorem sanitize_name_idempotent:
  "sanitize_name (sanitize_name s) = sanitize_name s \<and>
   clean_name (sanitize_name s) \<and>
   (sanitize_name t = t \<longleftrightarrow> clean_name t)"
proof -
  have "sanitize_name t = t \<Longrightarrow> clean_name t"
    using sanitize_name_clean [of t] by simp
  then show ?thesis
    using sanitize_name_clean clean_name_fixed by blast
qed

theorem sanitize_name_idempotent_witness:
  "sanitize_name (sanitize_name ''A  b__C!'') = sanitize_name ''A  b__C!'' \<and>
   clean_name (sanitize_name ''A  b__C!'') \<and>
   sanitize_name ''a_b_c'' = ''a_b_c'' \<and> clean_name ''a_b_c''"
proof -
  have c: "clean_name ''a_b_c''" by code_simp
  show ?thesis
    using sanitize_name_idempotent [of "''A  b__C!''" "''a_b_c''"] c by simp
qed

section \<open>Properties of the column detector\<close>

lemma first_match_in: "first_match ps cols = Some c \<Longrightarrow> c \<in> set cols"
  by (induction ps) (auto split: option.splits simp: find_Some_iff)

lemma first_match_Nil: "first_match ps [] = None"
  by (induction ps) auto

lemma find_eq_Some_takeWhile:
  "P t \<Longrightarrow> t \<in> set xs \<Longrightarrow>
   (find P xs = Some t) = (\<forall>c\<in>set (takeWhile (\<lambda>c. c \<noteq> t) xs). \<not> P c)"
  by (induction xs) auto

lemma timestamp_has_time: "re_search_ci [''time''] ''timestamp''"
  by code_simp

lemma choose_first_time:
  assumes "find (re_search_ci [''time'']) (columns df) = Some c"
  shows "choose_timestamp_column df = Inr c"
  using assms by (simp add: choose_timestamp_column_def TS_PATTERNS_def)

lemma token_step_apply:
  "token_step col m a =
     (case m a of Some v \<Rightarrow> Some v
      | None \<Rightarrow> if token_match a col then Some col else None)"
  by (cases a) (auto simp: token_step_def token_match_def AXES_def Let_def split: option.splits)

lemma token_pass_apply:
  "token_pass cols m a =
     (case m a of Some v \<Rightarrow> Some v | None \<Rightarrow> find (token_match a) cols)"
  unfolding token_pass_def
  by (induction cols arbitrary: m) (auto simp: token_step_apply split: option.splits)

lemma first_fill_apply:
  "fold (\<lambda>col m'. if E col \<and> m' a = None then m'(a \<mapsto> col) else m') cols m b =
     (if b = a then (case m a of Some v \<Rightarrow> Some v | None \<Rightarrow> find E cols) else m b)"
  by (induction cols arbitrary: m) (auto split: option.splits)

lemma find_append_split:
  "find P (xs @ ys) = (case find P xs of Some x \<Rightarrow> Some x | None \<Rightarrow> find P ys)"
  by (induction xs) auto

lemma last_fill_apply:
  "fold (\<lambda>col m'. if E col then m'(a \<mapsto> col) else m') cols m b =
     (if b = a then (case find E (rev cols) of Some c \<Rightarrow> Some c | None \<Rightarrow> m a) else m b)"
proof (induction cols arbitrary: m)
  case Nil
  then show ?case by simp
next
  case (Cons c cs)
  show ?case
    by (simp add: Cons.IH find_append_split split: option.splits)
qed

lemma suffix_pass_apply:
  "suffix_pass cols m a =
     (case m a of Some v \<Rightarrow> Some v | None \<Rightarrow> find (suffix_match a) cols)"
  by (cases a)
     (auto simp: suffix_pass_def AXES_def first_fill_apply suffix_match_def [abs_def]
           split: option.splits)

lemma exact_pass_apply:
  "exact_pass cols m a =
     (case m a of Some v \<Rightarrow> Some v | None \<Rightarrow> find (exact_match a) (rev cols))"
  by (cases a)
     (auto simp: exact_pass_def AXES_def last_fill_apply exact_match_def [abs_def]
           split: option.splits)

lemma axis_passes_apply:
  "axis_passes cols a =
     (case find (token_match a) cols of
        Some c \<Rightarrow> Some c
      | None \<Rightarrow>
         (case find (suffix_match a) cols of
            Some c \<Rightarrow> Some c
          | None \<Rightarrow> find (exact_match a) (rev cols)))"
  by (simp add: axis_passes_def exact_pass_apply suffix_pass_apply token_pass_apply
      split: option.splits)

lemma map_len_3: "(map_len m = 3) = (\<forall>a. m a \<noteq> None)"
proof -
  have "(\<forall>a. m a \<noteq> None) = (m X \<noteq> None \<and> m Y \<noteq> None \<and> m Z \<noteq> None)"
    by (metis axis.exhaust)
  then show ?thesis by (auto simp: map_len_def AXES_def)
qed

text \<open>
  Claim C3, as amended. The pattern \<open>time\<close> is tried first and the name \<open>timestamp\<close>
  contains it, so on a table with a column named \<open>timestamp\<close> the function returns the
  first column, in declared order, whose name contains \<open>time\<close> ignoring case. That
  column is \<open>timestamp\<close> exactly when no column declared before it contains \<open>time\<close>.
\<close>

theorem choose_timestamp_column_first_time:
  assumes "''timestamp'' \<in> set (columns df)"
  shows "(\<exists>c. find (re_search_ci [''time'']) (columns df) = Some c \<and>
              choose_timestamp_column df = Inr c) \<and>
         (choose_timestamp_column df = Inr ''timestamp'' \<longleftrightarrow>
            (\<forall>c\<in>set (takeWhile (\<lambda>c. c \<noteq> ''timestamp'') (columns df)).
               \<not> re_search_ci [''time''] c))"
proof -
  obtain c where c: "find (re_search_ci [''time'']) (columns df) = Some c"
    using assms timestamp_has_time by (cases "find (re_search_ci [''time'']) (columns df)")
      (auto simp: find_None_iff)
  have ch: "choose_timestamp_column df = Inr c" using c by (rule choose_first_time)
  have "(c = ''timestamp'') =
        (\<forall>c\<in>set (takeWhile (\<lambda>c. c \<noteq> ''timestamp'') (columns df)). \<not> re_search_ci [''time''] c)"
    using find_eq_Some_takeWhile [of "re_search_ci [''time'']" "''timestamp''" "columns df",
        OF timestamp_has_time assms] c by auto
  then show ?thesis using c ch by simp
qed

theorem choose_timestamp_column_first_time_witness:
  "''timestamp'' \<in> set (columns \<lparr>columns = [''x'', ''timestamp'', ''time''], rows = ([] :: int cell list list)\<rparr>) \<and>
   choose_timestamp_column \<lparr>columns = [''x'', ''timestamp'', ''time''], rows = ([] :: int cell list list)\<rparr> = Inr ''timestamp''"
proof -
  let ?df = "\<lparr>columns = [''x'', ''timestamp'', ''time''], rows = ([] :: int cell list list)\<rparr>"
  have m: "''timestamp'' \<in> set (columns ?df)" by simp
  have n: "\<not> re_search_ci [''time''] ''x''" by code_simp
  show ?thesis
    using choose_timestamp_column_first_time [OF m] m n by simp
qed

text \<open>
  The claim as stated fails: with the columns \<open>datetime, timestamp\<close> the function returns
  \<open>datetime\<close>.
\<close>

theorem choose_timestamp_column_counterexample:
  "''timestamp'' \<in> set (columns \<lparr>columns = [''datetime'', ''timestamp''], rows = ([] :: int cell list list)\<rparr>) \<and>
   choose_timestamp_column \<lparr>columns = [''datetime'', ''timestamp''], rows = ([] :: int cell list list)\<rparr>
     = Inr ''datetime''"
  by code_simp

text \<open>
  Claim C8. On a table with at least one column \<open>choose_timestamp_column\<close> returns one of
  the table's columns; on a table with no column the fallback \<open>df.columns[0]\<close> raises
  \<open>IndexError\<close>.
\<close>

theorem choose_timestamp_column_total:
  "(columns df \<noteq> [] \<longrightarrow>
      (\<exists>c. choose_timestamp_column df = Inr c \<and> c \<in> set (columns df))) \<and>
   (columns df = [] \<longrightarrow> choose_timestamp_column df = Inl IndexError)"
proof (cases "columns df")
  case Nil
  then show ?thesis by (simp add: choose_timestamp_column_def first_match_Nil)
next
  case (Cons c cs)
  show ?thesis
  proof (cases "first_match TS_PATTERNS (columns df)")
    case None
    then show ?thesis using Cons by (simp add: choose_timestamp_column_def)
  next
    case (Some d)
    then have "d \<in> set (columns df)" by (rule first_match_in)
    then show ?thesis using Some Cons by (simp add: choose_timestamp_column_def)
  qed
qed

theorem choose_timestamp_column_total_witness:
  "columns \<lparr>columns = [''a'', ''b''], rows = ([] :: int cell list list)\<rparr> \<noteq> [] \<and>
   choose_timestamp_column \<lparr>columns = [''a'', ''b''], rows = ([] :: int cell list list)\<rparr> = Inr ''a'' \<and>
   columns \<lparr>columns = [], rows = ([] :: int cell list list)\<rparr> = [] \<and>
   choose_timestamp_column \<lparr>columns = [], rows = ([] :: int cell list list)\<rparr> = Inl IndexError"
proof -
  have "choose_timestamp_column \<lparr>columns = [''a'', ''b''], rows = ([] :: int cell list list)\<rparr> = Inr ''a''"
    by code_simp
  then show ?thesis
    using choose_timestamp_column_total [of "\<lparr>columns = [], rows = ([] :: int cell list list)\<rparr>"]
    by simp
qed

lemma a_names_no_token: "\<not> token_match a ''ax'' \<and> \<not> token_match a ''ay'' \<and> \<not> token_match a ''az''"
proof -
  have "list_all (\<lambda>a. \<not> token_match a ''ax'' \<and> \<not> token_match a ''ay'' \<and> \<not> token_match a ''az'')
          [X, Y, Z]"
    by code_simp
  then show ?thesis by (cases a) simp_all
qed

lemma a_names_no_exact: "\<not> exact_match a ''ax'' \<and> \<not> exact_match a ''ay'' \<and> \<not> exact_match a ''az''"
proof -
  have "list_all (\<lambda>a. \<not> exact_match a ''ax'' \<and> \<not> exact_match a ''ay'' \<and> \<not> exact_match a ''az'')
          [X, Y, Z]"
    by code_simp
  then show ?thesis by (cases a) simp_all
qed

lemma find_holds: "find P xs = Some x \<Longrightarrow> P x"
  by (auto simp: find_Some_iff)

lemma detect_Inr_iff:
  "(detect_xyz_columns df = Inr m) =
     (m = axis_passes (columns df) \<and> (\<forall>a. axis_passes (columns df) a \<noteq> None))"
  by (auto simp: detect_xyz_columns_def Let_def map_len_3)


text \<open>
  Claim C4, as amended. On a table with the columns \<open>ax\<close>, \<open>ay\<close> and \<open>az\<close> the token
  pass never assigns one of them: the only token of \<open>ax\<close> is \<open>ax\<close>, which is not the
  axis letter. \<open>detect_xyz_columns\<close> returns \<open>{x: ax, y: ay, z: az}\<close> exactly when the
  token pass assigns no axis at all and, for each axis letter, the first column in
  declared order whose lowercased name ends with the letter is \<open>ax\<close>, \<open>ay\<close>, \<open>az\<close>
  respectively; the assignment is then made by the suffix pass.
\<close>

theorem detect_xyz_columns_a_names:
  assumes "''ax'' \<in> set (columns df)" "''ay'' \<in> set (columns df)" "''az'' \<in> set (columns df)"
  shows "(\<forall>a. token_pass (columns df) Map.empty a \<notin> {Some ''ax'', Some ''ay'', Some ''az''}) \<and>
         (detect_xyz_columns df = Inr [X \<mapsto> ''ax'', Y \<mapsto> ''ay'', Z \<mapsto> ''az''] \<longleftrightarrow>
            token_pass (columns df) Map.empty = Map.empty \<and>
            find (suffix_match X) (columns df) = Some ''ax'' \<and>
            find (suffix_match Y) (columns df) = Some ''ay'' \<and>
            find (suffix_match Z) (columns df) = Some ''az'')"
proof -
  let ?cols = "columns df"
  let ?m = "[X \<mapsto> ''ax'', Y \<mapsto> ''ay'', Z \<mapsto> ''az'']"
  define a_name where "a_name = (\<lambda>a. CHR ''a'' # axis_name a)"
  have tok: "token_pass ?cols Map.empty a \<notin> {Some ''ax'', Some ''ay'', Some ''az''}" for a
    using a_names_no_token [of a] find_holds [of "token_match a" ?cols]
    by (auto simp: token_pass_apply)
  have pass: "axis_passes ?cols a =
      (case token_pass ?cols Map.empty a of Some c \<Rightarrow> Some c
       | None \<Rightarrow> (case find (suffix_match a) ?cols of Some c \<Rightarrow> Some c
                   | None \<Rightarrow> find (exact_match a) (rev ?cols)))" for a
    by (simp add: axis_passes_apply token_pass_apply)
  have step: "axis_passes ?cols a = Some (a_name a) \<Longrightarrow>
      token_pass ?cols Map.empty a = None \<and> find (suffix_match a) ?cols = Some (a_name a)" for a
    using tok [of a] a_names_no_exact [of a] find_holds [of "exact_match a" "rev ?cols"]
    by (cases a) (auto simp: pass a_name_def split: option.splits)
  have "detect_xyz_columns df = Inr ?m \<longleftrightarrow> (\<forall>a. axis_passes ?cols a = Some (a_name a))"
  proof
    assume "detect_xyz_columns df = Inr ?m"
    then have "axis_passes ?cols = ?m" by (simp add: detect_Inr_iff)
    then show "\<forall>a. axis_passes ?cols a = Some (a_name a)"
      by (auto simp: a_name_def intro: axis.exhaust)
  next
    assume h: "\<forall>a. axis_passes ?cols a = Some (a_name a)"
    have "axis_passes ?cols = ?m"
    proof
      fix a show "axis_passes ?cols a = ?m a" using h by (cases a) (auto simp: a_name_def)
    qed
    then show "detect_xyz_columns df = Inr ?m" using h by (simp add: detect_Inr_iff)
  qed
  also have "\<dots> \<longleftrightarrow> (\<forall>a. token_pass ?cols Map.empty a = None \<and>
                            find (suffix_match a) ?cols = Some (a_name a))"
    using step by (auto simp: pass)
  also have "\<dots> \<longleftrightarrow> (token_pass ?cols Map.empty = Map.empty \<and>
            find (suffix_match X) ?cols = Some ''ax'' \<and>
            find (suffix_match Y) ?cols = Some ''ay'' \<and>
            find (suffix_match Z) ?cols = Some ''az'')"
  proof -
    have "(\<forall>a. Q a) = (Q X \<and> Q Y \<and> Q Z)" for Q by (metis axis.exhaust)
    then show ?thesis by (auto simp: a_name_def fun_eq_iff)
  qed
  finally show ?thesis using tok by blast
qed


theorem detect_xyz_columns_a_names_witness:
  "''ax'' \<in> set (columns \<lparr>columns = [''Time (s)'', ''ax'', ''ay'', ''az''], rows = ([] :: int cell list list)\<rparr>) \<and>
   ''ay'' \<in> set (columns \<lparr>columns = [''Time (s)'', ''ax'', ''ay'', ''az''], rows = ([] :: int cell list list)\<rparr>) \<and>
   ''az'' \<in> set (columns \<lparr>columns = [''Time (s)'', ''ax'', ''ay'', ''az''], rows = ([] :: int cell list list)\<rparr>) \<and>
   token_pass [''Time (s)'', ''ax'', ''ay'', ''az''] Map.empty X = None \<and>
   detect_xyz_columns \<lparr>columns = [''Time (s)'', ''ax'', ''ay'', ''az''], rows = ([] :: int cell list list)\<rparr>
     = Inr [X \<mapsto> ''ax'', Y \<mapsto> ''ay'', Z \<mapsto> ''az'']"
proof -
  let ?df = "\<lparr>columns = [''Time (s)'', ''ax'', ''ay'', ''az''], rows = ([] :: int cell list list)\<rparr>"
  have m: "''ax'' \<in> set (columns ?df)" "''ay'' \<in> set (columns ?df)" "''az'' \<in> set (columns ?df)"
    by simp_all
  have t: "token_pass [''Time (s)'', ''ax'', ''ay'', ''az''] Map.empty = Map.empty"
    by code_simp
  have f: "find (suffix_match X) [''Time (s)'', ''ax'', ''ay'', ''az''] = Some ''ax''"
    "find (suffix_match Y) [''Time (s)'', ''ax'', ''ay'', ''az''] = Some ''ay''"
    "find (suffix_match Z) [''Time (s)'', ''ax'', ''ay'', ''az''] = Some ''az''"
    by code_simp+
  show ?thesis
    using detect_xyz_columns_a_names [OF m] t f by simp
qed

text \<open>
  The claim as stated fails twice. With the columns \<open>ax, ay, az\<close> the token pass leaves
  the mapping empty, and with the columns \<open>index, ax, ay, az\<close> the suffix pass assigns
  \<open>index\<close> to the x axis.
\<close>

theorem detect_xyz_columns_a_names_counterexample:
  "''time_x'' \<notin> set [''ax'', ''ay'', ''az''] \<and> ''time_y'' \<notin> set [''ax'', ''ay'', ''az''] \<and>
   ''time_z'' \<notin> set [''ax'', ''ay'', ''az''] \<and>
   token_pass [''ax'', ''ay'', ''az''] Map.empty = Map.empty \<and>
   ''time_x'' \<notin> set [''index'', ''ax'', ''ay'', ''az''] \<and>
   ''time_y'' \<notin> set [''index'', ''ax'', ''ay'', ''az''] \<and>
   ''time_z'' \<notin> set [''index'', ''ax'', ''ay'', ''az''] \<and>
   detect_xyz_columns \<lparr>columns = [''index'', ''ax'', ''ay'', ''az''], rows = ([] :: int cell list list)\<rparr>
     = Inr [X \<mapsto> ''index'', Y \<mapsto> ''ay'', Z \<mapsto> ''az'']"
  by code_simp




section \<open>Properties of the sensor file search\<close>

lemma scan_fold_fst:
  "fst (fold (scan_step isfile d) xs st) =
     (case filter (\<lambda>f. isfile (path_join d f) \<and> sensor_match ACCEL_KEYWORDS (py_lower f)) xs of
        [] \<Rightarrow> fst st
      | ms \<Rightarrow> Some (path_join d (last ms)))"
proof (induction xs rule: rev_induct)
  case Nil
  then show ?case by simp
next
  case (snoc x xs)
  then show ?case
    by (auto simp: scan_step_def Let_def split: list.splits)
qed

lemma scan_fold_snd:
  "snd (fold (scan_step isfile d) xs st) =
     (case filter (\<lambda>f. isfile (path_join d f) \<and> sensor_match GYRO_KEYWORDS (py_lower f)) xs of
        [] \<Rightarrow> snd st
      | ms \<Rightarrow> Some (path_join d (last ms)))"
proof (induction xs rule: rev_induct)
  case Nil
  then show ?case by simp
next
  case (snoc x xs)
  then show ?case
    by (auto simp: scan_step_def Let_def split: list.splits)
qed

lemma sorted_le_last:
  fixes xs :: "'a::linorder list"
  shows "sorted xs \<Longrightarrow> y \<in> set xs \<Longrightarrow> y \<le> last xs"
proof (induction xs rule: rev_induct)
  case Nil
  then show ?case by simp
next
  case (snoc x xs)
  then show ?case by (auto simp: sorted_append)
qed

lemma last_filter_sort:
  fixes xs :: "'a::linorder list"
  assumes "filter P (sort xs) \<noteq> []"
  shows "last (filter P (sort xs)) = Max {x \<in> set xs. P x}"
proof -
  let ?ms = "filter P (sort xs)"
  have s: "sorted ?ms" using sorted_filter [of "\<lambda>x. x" "sort xs" P] by simp
  have m: "last ?ms \<in> set ?ms" using assms by (rule last_in_set)
  have le: "\<And>y. y \<in> set ?ms \<Longrightarrow> y \<le> last ?ms"
    using s by (rule sorted_le_last)
  have e: "set ?ms = {x \<in> set xs. P x}" by auto
  have "Max (set ?ms) = last ?ms"
    using m le by (intro Max_eqI) simp_all
  then show ?thesis by (simp only: e)
qed


lemma find_sensor_files_fst:
  "fst (find_sensor_files_in_session isfile listing d) =
     (if sensor_names isfile listing d ACCEL_KEYWORDS = {} then None
      else Some (path_join d (Max (sensor_names isfile listing d ACCEL_KEYWORDS))))"
proof -
  let ?P = "\<lambda>f. isfile (path_join d f) \<and> sensor_match ACCEL_KEYWORDS (py_lower f)"
  have e: "set (filter ?P (sort listing)) = sensor_names isfile listing d ACCEL_KEYWORDS"
    by (auto simp: sensor_names_def)
  show ?thesis
  proof (cases "filter ?P (sort listing)")
    case Nil
    then have "sensor_names isfile listing d ACCEL_KEYWORDS = {}" using e by simp
    then show ?thesis using Nil
      by (simp add: find_sensor_files_in_session_def scan_fold_fst)
  next
    case (Cons m ms)
    then have ne: "filter ?P (sort listing) \<noteq> []" by simp
    then have "sensor_names isfile listing d ACCEL_KEYWORDS \<noteq> {}" using e by auto
    moreover have "last (filter ?P (sort listing)) = Max (sensor_names isfile listing d ACCEL_KEYWORDS)"
      using last_filter_sort [OF ne] by (simp add: sensor_names_def)
    ultimately show ?thesis using Cons
      by (simp add: find_sensor_files_in_session_def scan_fold_fst)
  qed
qed

lemma find_sensor_files_snd:
  "snd (find_sensor_files_in_session isfile listing d) =
     (if sensor_names isfile listing d GYRO_KEYWORDS = {} then None
      else Some (path_join d (Max (sensor_names isfile listing d GYRO_KEYWORDS))))"
proof -
  let ?P = "\<lambda>f. isfile (path_join d f) \<and> sensor_match GYRO_KEYWORDS (py_lower f)"
  have e: "set (filter ?P (sort listing)) = sensor_names isfile listing d GYRO_KEYWORDS"
    by (auto simp: sensor_names_def)
  show ?thesis
  proof (cases "filter ?P (sort listing)")
    case Nil
    then have "sensor_names isfile listing d GYRO_KEYWORDS = {}" using e by simp
    then show ?thesis using Nil
      by (simp add: find_sensor_files_in_session_def scan_fold_snd)
  next
    case (Cons m ms)
    then have ne: "filter ?P (sort listing) \<noteq> []" by simp
    then have "sensor_names isfile listing d GYRO_KEYWORDS \<noteq> {}" using e by auto
    moreover have "last (filter ?P (sort listing)) = Max (sensor_names isfile listing d GYRO_KEYWORDS)"
      using last_filter_sort [OF ne] by (simp add: sensor_names_def)
    ultimately show ?thesis using Cons
      by (simp add: find_sensor_files_in_session_def scan_fold_snd)
  qed
qed

lemma sensor_match_nonempty: "sensor_match kws low \<Longrightarrow> low \<noteq> []"
  by (auto simp: sensor_match_def ends_with_def starts_with_def)

lemma path_join_nonempty: "f \<noteq> [] \<Longrightarrow> path_join d f \<noteq> []"
  by (auto simp: path_join_def)

text \<open>
  Claim C10, as amended. For each sensor, \<open>find_sensor_files_in_session\<close> returns the
  path of the greatest name, in lexicographic order, among the regular files of the
  listing whose lowercased name ends with \<open>.csv\<close> and contains a keyword of the sensor,
  and \<open>None\<close> when there is none: a later match overwrites an earlier one. When a name
  matches both keyword sets, both paths are present and not empty, so the session is not
  skipped for a missing file. Such a name is returned as both paths when no match of
  either sensor comes after it in the order.
\<close>

theorem find_sensor_files_in_session_last_match:
  "fst (find_sensor_files_in_session isfile listing d) =
     (if sensor_names isfile listing d ACCEL_KEYWORDS = {} then None
      else Some (path_join d (Max (sensor_names isfile listing d ACCEL_KEYWORDS)))) \<and>
   snd (find_sensor_files_in_session isfile listing d) =
     (if sensor_names isfile listing d GYRO_KEYWORDS = {} then None
      else Some (path_join d (Max (sensor_names isfile listing d GYRO_KEYWORDS)))) \<and>
   (f \<in> sensor_names isfile listing d ACCEL_KEYWORDS \<and>
    f \<in> sensor_names isfile listing d GYRO_KEYWORDS \<longrightarrow>
    \<not> session_skipped (find_sensor_files_in_session isfile listing d)) \<and>
   (f \<in> sensor_names isfile listing d ACCEL_KEYWORDS \<and>
    f \<in> sensor_names isfile listing d GYRO_KEYWORDS \<and>
    (\<forall>g \<in> sensor_names isfile listing d ACCEL_KEYWORDS \<union>
            sensor_names isfile listing d GYRO_KEYWORDS. g \<le> f) \<longrightarrow>
    find_sensor_files_in_session isfile listing d =
      (Some (path_join d f), Some (path_join d f)))"
proof -
  have fin: "finite (sensor_names isfile listing d kws)" for kws
    by (simp add: sensor_names_def)
  have path: "path_join d (Max (sensor_names isfile listing d kws)) \<noteq> []"
    if ne: "sensor_names isfile listing d kws \<noteq> {}" for kws
  proof -
    have "Max (sensor_names isfile listing d kws) \<in> sensor_names isfile listing d kws"
      using fin ne by (rule Max_in)
    then have "py_lower (Max (sensor_names isfile listing d kws)) \<noteq> []"
      using sensor_match_nonempty by (auto simp: sensor_names_def)
    then have "Max (sensor_names isfile listing d kws) \<noteq> []" by (auto simp: py_lower_def)
    then show ?thesis by (rule path_join_nonempty)
  qed
  have kept: "\<not> session_skipped (find_sensor_files_in_session isfile listing d)"
    if a: "f \<in> sensor_names isfile listing d ACCEL_KEYWORDS"
      and g: "f \<in> sensor_names isfile listing d GYRO_KEYWORDS"
  proof -
    have na: "sensor_names isfile listing d ACCEL_KEYWORDS \<noteq> {}" using a by blast
    have ng: "sensor_names isfile listing d GYRO_KEYWORDS \<noteq> {}" using g by blast
    have "fst (find_sensor_files_in_session isfile listing d) =
        Some (path_join d (Max (sensor_names isfile listing d ACCEL_KEYWORDS)))"
      using na by (simp add: find_sensor_files_fst)
    moreover have "snd (find_sensor_files_in_session isfile listing d) =
        Some (path_join d (Max (sensor_names isfile listing d GYRO_KEYWORDS)))"
      using ng by (simp add: find_sensor_files_snd)
    ultimately show ?thesis using path [OF na] path [OF ng] by (simp add: session_skipped_def)
  qed
  have both: "find_sensor_files_in_session isfile listing d =
      (Some (path_join d f), Some (path_join d f))"
    if a: "f \<in> sensor_names isfile listing d ACCEL_KEYWORDS"
      and g: "f \<in> sensor_names isfile listing d GYRO_KEYWORDS"
      and top: "\<forall>g \<in> sensor_names isfile listing d ACCEL_KEYWORDS \<union>
            sensor_names isfile listing d GYRO_KEYWORDS. g \<le> f"
  proof -
    have ma: "Max (sensor_names isfile listing d ACCEL_KEYWORDS) = f"
      using a top fin by (intro Max_eqI) auto
    have mg: "Max (sensor_names isfile listing d GYRO_KEYWORDS) = f"
      using g top fin by (intro Max_eqI) auto
    have r1: "fst (find_sensor_files_in_session isfile listing d) = Some (path_join d f)"
      using a ma by (auto simp: find_sensor_files_fst)
    have r2: "snd (find_sensor_files_in_session isfile listing d) = Some (path_join d f)"
      using g mg by (auto simp: find_sensor_files_snd)
    show ?thesis using r1 r2 by (simp add: prod_eq_iff)
  qed
  show ?thesis using find_sensor_files_fst find_sensor_files_snd kept both by blast
qed

theorem find_sensor_files_in_session_last_match_witness:
  "find_sensor_files_in_session (\<lambda>p. True) [''imu_accel_gyro.csv'', ''Accelerometer.csv''] ''s1''
     = (Some ''s1/imu_accel_gyro.csv'', Some ''s1/imu_accel_gyro.csv'') \<and>
   \<not> session_skipped
       (find_sensor_files_in_session (\<lambda>p. True) [''imu_accel_gyro.csv'', ''Accelerometer.csv''] ''s1'') \<and>
   sensor_names (\<lambda>p. True) [''imu_accel_gyro.csv'', ''Accelerometer.csv''] ''s1'' ACCEL_KEYWORDS
     = {''imu_accel_gyro.csv'', ''Accelerometer.csv''} \<and>
   sensor_names (\<lambda>p. True) [''imu_accel_gyro.csv'', ''Accelerometer.csv''] ''s1'' GYRO_KEYWORDS
     = {''imu_accel_gyro.csv''}"
proof -
  let ?l = "[''imu_accel_gyro.csv'', ''Accelerometer.csv'']"
  have m: "sensor_match ACCEL_KEYWORDS (py_lower ''imu_accel_gyro.csv'')"
    "sensor_match GYRO_KEYWORDS (py_lower ''imu_accel_gyro.csv'')"
    "sensor_match ACCEL_KEYWORDS (py_lower ''Accelerometer.csv'')"
    "\<not> sensor_match GYRO_KEYWORDS (py_lower ''Accelerometer.csv'')"
    by code_simp+
  have a: "sensor_names (\<lambda>p. True) ?l ''s1'' ACCEL_KEYWORDS = {''imu_accel_gyro.csv'', ''Accelerometer.csv''}"
    using m by (auto simp: sensor_names_def)
  have g: "sensor_names (\<lambda>p. True) ?l ''s1'' GYRO_KEYWORDS = {''imu_accel_gyro.csv''}"
    using m by (auto simp: sensor_names_def)
  have le: "''Accelerometer.csv'' \<le> ''imu_accel_gyro.csv''" by simp
  have p: "path_join ''s1'' ''imu_accel_gyro.csv'' = ''s1/imu_accel_gyro.csv''" by code_simp
  show ?thesis
    using find_sensor_files_in_session_last_match
      [of "\<lambda>p. True" ?l "''s1''" "''imu_accel_gyro.csv''"] a g le p
    by (simp add: session_skipped_def)
qed

text \<open>
  The claim as stated fails: \<open>imu_accel_gyro.csv\<close> matches both keyword sets, but in a
  session that also holds \<open>zz_accel.csv\<close> it is returned as the gyroscope path only,
  because the later accelerometer match overwrites it.
\<close>

theorem find_sensor_files_in_session_last_match_counterexample:
  "sensor_match ACCEL_KEYWORDS (py_lower ''imu_accel_gyro.csv'') \<and>
   sensor_match GYRO_KEYWORDS (py_lower ''imu_accel_gyro.csv'') \<and>
   find_sensor_files_in_session (\<lambda>p. True) [''imu_accel_gyro.csv'', ''zz_accel.csv''] ''s1'' =
     (Some ''s1/zz_accel.csv'', Some ''s1/imu_accel_gyro.csv'')"
  by code_simp

section \<open>Properties of the session merger\<close>

lemma map_const_replicate: "(\<And>x. x \<in> set xs \<Longrightarrow> f x = l) \<Longrightarrow> map f xs = replicate (length xs) l"
  by (induction xs) auto

lemma set_positions: "set (positions l cols) = {i. i < length cols \<and> cols ! i = l}"
  by (auto simp: positions_def)

lemma positions_labels: "map (\<lambda>i. cols ! i) (positions l cols) = replicate (length (positions l cols)) l"
  by (rule map_const_replicate) (simp add: set_positions)

lemma positions_Cons:
  "positions l (c # cs) = (if c = l then [0] else []) @ map Suc (positions l cs)"
proof -
  have "[0..<length (c # cs)] = 0 # map Suc [0..<length cs]"
    by (simp add: upt_conv_Cons map_Suc_upt del: upt_Suc)
  then show ?thesis
    by (simp add: positions_def filter_map comp_def del: upt_Suc)
qed

lemma positions_absent: "l \<notin> set cs \<Longrightarrow> positions l cs = []"
  by (auto simp: positions_def filter_empty_conv)

lemma positions_head: "l \<notin> set cs \<Longrightarrow> positions l (l # cs) = [0]"
  by (simp add: positions_Cons positions_absent)

lemma positions_nonempty: "l \<in> set cs \<Longrightarrow> positions l cs \<noteq> []"
proof -
  assume "l \<in> set cs"
  then obtain i where "i < length cs" "cs ! i = l" by (auto simp: in_set_conv_nth)
  then have "i \<in> set (positions l cs)" by (simp add: set_positions)
  then show ?thesis by auto
qed

lemma positions_bound: "i \<in> set (positions l cs) \<Longrightarrow> i < length cs \<and> cs ! i = l"
  by (simp add: set_positions)

lemma choose_rows [simp]: "choose_timestamp_column (df\<lparr>rows := rs\<rparr>) = choose_timestamp_column df"
  by (simp add: choose_timestamp_column_def split: option.splits)

lemma detect_rows [simp]: "detect_xyz_columns (df\<lparr>rows := rs\<rparr>) = detect_xyz_columns df"
  by (simp add: detect_xyz_columns_def)

lemma rename_rows [simp]:
  "rename_columns f (df\<lparr>rows := rs\<rparr>) = (rename_columns f df)\<lparr>rows := rs\<rparr>"
  by (simp add: rename_columns_def)

lemma rename_columns_sel [simp]:
  "columns (rename_columns f df) = map (\<lambda>c. case f c of Some c' \<Rightarrow> c' | None \<Rightarrow> c) (columns df)"
  "rows (rename_columns f df) = rows df"
  by (simp_all add: rename_columns_def)

lemma unify_rows:
  "unify_timestamps a g = Inr (c, a1, g1) \<Longrightarrow>
   unify_timestamps (a\<lparr>rows := ra\<rparr>) (g\<lparr>rows := rg\<rparr>) = Inr (c, a1\<lparr>rows := ra\<rparr>, g1\<lparr>rows := rg\<rparr>)"
  by (auto simp: unify_timestamps_def Let_def split: sum.splits if_splits)

lemma select_columns_present:
  assumes "set labels \<subseteq> set (columns df)"
    and "concat (map (\<lambda>l. positions l (columns df)) labels) = idxs"
  shows "select_columns labels df =
           Inr \<lparr>columns = map (\<lambda>i. columns df ! i) idxs,
                rows = map (\<lambda>r. map (cell_at r) idxs) (rows df)\<rparr>"
proof -
  have "find (\<lambda>l. l \<notin> set (columns df)) labels = None"
    using assms(1) by (auto simp: find_None_iff)
  then show ?thesis using assms(2) by (simp add: select_columns_def Let_def)
qed

lemma axis_passes_in_cols: "axis_passes cols a = Some c \<Longrightarrow> c \<in> set cols"
  by (auto simp: axis_passes_apply find_Some_iff split: option.splits)
     (metis length_rev nth_mem set_rev)+

lemma select_sensor_ready:
  assumes det: "detect_xyz_columns df = Inr m" and single: "ts_single c m df"
  shows "\<exists>i p la. positions c (columns df) = [i] \<and>
           set la \<subseteq> {prefix @ ''_x'', prefix @ ''_y'', prefix @ ''_z''} \<and>
           (\<forall>rs. select_sensor prefix c m (df\<lparr>rows := rs\<rparr>) =
                   Inr \<lparr>columns = c # la, rows = map (\<lambda>r. map (cell_at r) (i # p)) rs\<rparr>)"
proof -
  let ?cols = "columns df"
  have m: "m = axis_passes ?cols" and all: "\<forall>a. axis_passes ?cols a \<noteq> None"
    using det by (simp_all add: detect_Inr_iff)
  obtain cx cy cz where c3: "m X = Some cx" "m Y = Some cy" "m Z = Some cz"
    using m all by (metis option.exhaust)
  have mem: "cx \<in> set ?cols" "cy \<in> set ?cols" "cz \<in> set ?cols"
    using c3 m axis_passes_in_cols by metis+
  have ne: "c \<noteq> cx" "c \<noteq> cy" "c \<noteq> cz"
    using single c3 by (auto simp: ts_single_def)
  obtain i where i: "positions c ?cols = [i]"
    using single by (auto simp: ts_single_def length_Suc_conv)
  have ci: "i < length ?cols" "?cols ! i = c"
    using positions_bound [of i c ?cols] i by simp_all
  then have cmem: "c \<in> set ?cols" by (metis nth_mem)
  define p where "p = positions cx ?cols @ positions cy ?cols @ positions cz ?cols"
  define D where "D = Map.empty(cx \<mapsto> prefix @ ''_x'', cy \<mapsto> prefix @ ''_y'', cz \<mapsto> prefix @ ''_z'')"
  define ren where "ren = (\<lambda>l. case D l of Some l' \<Rightarrow> l' | None \<Rightarrow> l)"
  define la where "la = map ren (map (\<lambda>i. ?cols ! i) p)"
  have renc: "ren c = c" using ne by (simp add: ren_def D_def)
  have pl: "set (map (\<lambda>i. ?cols ! i) p) \<subseteq> {cx, cy, cz}"
    unfolding p_def by (auto simp: positions_labels)
  have rl: "ren l \<in> {prefix @ ''_x'', prefix @ ''_y'', prefix @ ''_z''}" if "l \<in> {cx, cy, cz}" for l
    using that by (auto simp: ren_def D_def)
  have la_sub: "set la \<subseteq> {prefix @ ''_x'', prefix @ ''_y'', prefix @ ''_z''}"
    unfolding la_def using pl rl by auto
  have sel: "select_sensor prefix c m (df\<lparr>rows := rs\<rparr>) =
      Inr \<lparr>columns = c # la, rows = map (\<lambda>r. map (cell_at r) (i # p)) rs\<rparr>" for rs
  proof -
    have sub: "set [c, cx, cy, cz] \<subseteq> set (columns (df\<lparr>rows := rs\<rparr>))"
      using mem cmem by simp
    have idx: "concat (map (\<lambda>l. positions l (columns (df\<lparr>rows := rs\<rparr>))) [c, cx, cy, cz]) = i # p"
      by (simp add: i p_def)
    have "select_columns [c, cx, cy, cz] (df\<lparr>rows := rs\<rparr>) =
        Inr \<lparr>columns = c # map (\<lambda>i. ?cols ! i) p, rows = map (\<lambda>r. map (cell_at r) (i # p)) rs\<rparr>"
      using select_columns_present [OF sub idx] ci by simp
    then show ?thesis
      using c3 renc
      by (simp add: select_sensor_def rename_columns_def la_def ren_def D_def)
  qed
  show ?thesis using i la_sub sel by blast
qed

lemma first_match_holds:
  "first_match ps cols = Some c \<Longrightarrow> \<exists>p\<in>set ps. re_search_ci [p] c"
  by (induction ps) (auto split: option.splits dest: find_holds)

lemma sensor_label_facts:
  "list_all (\<lambda>n. \<not> list_ex (\<lambda>p. re_search_ci [p] n) TS_PATTERNS \<and>
                  list_ex (\<lambda>a. token_match a n) [X, Y, Z] \<and> n \<noteq> ''timestamp'')
     (tl OUTPUT_COLS)"
  by code_simp

lemma fallback_label_is_axis:
  assumes ch: "choose_timestamp_column df = Inr c" and n: "c \<in> set (tl OUTPUT_COLS)"
  shows "\<exists>a. axis_passes (columns df) a = Some c"
proof -
  have f: "\<not> list_ex (\<lambda>p. re_search_ci [p] c) TS_PATTERNS" "list_ex (\<lambda>a. token_match a c) [X, Y, Z]"
    using sensor_label_facts n by (auto simp: list_all_iff)
  have "first_match TS_PATTERNS (columns df) \<noteq> Some d" for d
  proof
    assume fm: "first_match TS_PATTERNS (columns df) = Some d"
    then have "choose_timestamp_column df = Inr d" by (simp add: choose_timestamp_column_def)
    then have "d = c" using ch by simp
    then show False using first_match_holds [OF fm] f(1) by (auto simp: list_ex_iff)
  qed
  then have none: "first_match TS_PATTERNS (columns df) = None" by (cases "first_match TS_PATTERNS (columns df)") auto
  then obtain rest where cols: "columns df = c # rest"
    using ch by (auto simp: choose_timestamp_column_def split: list.splits)
  obtain a where "token_match a c" using f(2) by (auto simp: list_ex_iff)
  then have "axis_passes (columns df) a = Some c"
    by (simp add: axis_passes_apply cols)
  then show ?thesis ..
qed

lemma ready_common_not_sensor:
  assumes u: "unify_timestamps a g = Inr (c, a1, g1)"
    and det: "detect_xyz_columns a1 = Inr am" and single: "ts_single c am a1"
  shows "c \<notin> set (tl OUTPUT_COLS)"
proof
  assume n: "c \<in> set (tl OUTPUT_COLS)"
  then have nt: "c \<noteq> ''timestamp''" using sensor_label_facts by (auto simp: list_all_iff)
  have "choose_timestamp_column a = Inr c \<and> a1 = a"
    using u nt by (auto simp: unify_timestamps_def Let_def split: sum.splits if_splits)
  then obtain ax where "axis_passes (columns a1) ax = Some c"
    using fallback_label_is_axis [of a c] n by auto
  then have "am ax = Some c" using det by (simp add: detect_Inr_iff)
  then show False using single by (cases ax) (auto simp: ts_single_def)
qed

lemma to_numeric_column_head:
  "c \<notin> set la \<Longrightarrow>
   to_numeric_column to_float parse c \<lparr>columns = c # la, rows = rs\<rparr> =
     Inr \<lparr>columns = c # la, rows = to_numeric_rows to_float parse 0 rs\<rparr>"
  by (simp add: to_numeric_column_def positions_head)

lemma coerce_timestamps_heads:
  "c \<notin> set la \<Longrightarrow> c \<notin> set lg \<Longrightarrow>
   coerce_timestamps to_float parse c \<lparr>columns = c # la, rows = ls\<rparr> \<lparr>columns = c # lg, rows = rs\<rparr> =
     (\<lparr>columns = c # la, rows = to_numeric_rows to_float parse 0 ls\<rparr>,
      \<lparr>columns = c # lg, rows = to_numeric_rows to_float parse 0 rs\<rparr>)"
  by (simp add: coerce_timestamps_def to_numeric_column_head)

lemma filter_nonzero_upt: "filter (\<lambda>p. p \<noteq> 0) [0..<Suc n] = map Suc [0..<n]"
proof -
  have "[0..<Suc n] = 0 # map Suc [0..<n]"
    by (simp add: upt_conv_Cons map_Suc_upt del: upt_Suc)
  then show ?thesis by (simp add: filter_map comp_def del: upt_Suc)
qed

lemma merged_columns_heads:
  assumes "set la \<inter> set lg = {}"
  shows "merged_columns c 0 (c # la) (c # lg) = c # la @ lg"
proof -
  have f: "filter (\<lambda>p. p \<noteq> 0) [0..<length (c # lg)] = map Suc [0..<length lg]"
    using filter_nonzero_upt [of "length lg"] by simp
  have r: "map (\<lambda>p. (c # lg) ! p) (filter (\<lambda>p. p \<noteq> 0) [0..<length (c # lg)]) = lg"
    unfolding f by (simp add: comp_def map_nth)
  have no: "\<not> (x \<noteq> c \<and> x \<in> set (c # la) \<and> x \<in> set lg)" for x
    using assms by auto
  have l1: "map (\<lambda>x. if x \<noteq> c \<and> x \<in> set (c # la) \<and> x \<in> set lg then x @ ''_x'' else x) (c # la) = c # la"
    using assms by (intro map_idI) auto
  have l2: "map (\<lambda>x. if x \<noteq> c \<and> x \<in> set (c # la) \<and> x \<in> set lg then x @ ''_y'' else x) lg = lg"
    using assms by (intro map_idI) auto
  show ?thesis
    unfolding merged_columns_def r Let_def l1 l2 by simp
qed

lemma pd_merge_inner_heads:
  assumes "c \<notin> set la" "c \<notin> set lg" "set la \<inter> set lg = {}"
  shows "pd_merge_inner to_float c \<lparr>columns = c # la, rows = ls\<rparr> \<lparr>columns = c # lg, rows = rs\<rparr> =
           Inr \<lparr>columns = c # la @ lg,
                rows = inner_join_rows 0 0 (Suc (length la)) (Suc (length lg))
                         (update_column (key_cast to_float 0 0 ls rs) 0 ls)
                         (update_column (key_cast to_float 0 0 ls rs) 0 rs)\<rparr>"
  using assms by (simp add: pd_merge_inner_def positions_head merged_columns_heads Let_def)

lemma OUTPUT_COLS_split:
  "OUTPUT_COLS = ''timestamp'' # tl OUTPUT_COLS" "''timestamp'' \<notin> set (tl OUTPUT_COLS)"
  by (simp_all add: OUTPUT_COLS_def)

lemma final_select:
  assumes nt: "''timestamp'' \<notin> set l"
  shows "\<exists>C q. ''timestamp'' \<notin> set C \<and>
           (\<forall>rs. select_columns (filter (\<lambda>c. c \<in> set (''timestamp'' # l)) OUTPUT_COLS)
                   \<lparr>columns = ''timestamp'' # l, rows = rs\<rparr> =
                 Inr \<lparr>columns = ''timestamp'' # C, rows = map (\<lambda>r. map (cell_at r) (0 # q)) rs\<rparr>)"
proof -
  let ?cols = "''timestamp'' # l"
  define rest where "rest = filter (\<lambda>c. c \<in> set ?cols) (tl OUTPUT_COLS)"
  define q where "q = concat (map (\<lambda>l'. positions l' ?cols) rest)"
  define C where "C = map (\<lambda>i. ?cols ! i) q"
  have present: "filter (\<lambda>c. c \<in> set ?cols) OUTPUT_COLS = ''timestamp'' # rest"
    by (subst OUTPUT_COLS_split(1)) (simp add: rest_def)
  have rest_nt: "''timestamp'' \<notin> set rest"
    using OUTPUT_COLS_split(2) by (auto simp: rest_def)
  have "\<And>i. i \<in> set q \<Longrightarrow> ''timestamp'' \<noteq> ?cols ! i"
    unfolding q_def using rest_nt positions_bound by fastforce
  then have C_nt: "''timestamp'' \<notin> set C" unfolding C_def by auto
  have sel: "select_columns (filter (\<lambda>c. c \<in> set ?cols) OUTPUT_COLS)
                   \<lparr>columns = ?cols, rows = rs\<rparr> =
                 Inr \<lparr>columns = ''timestamp'' # C, rows = map (\<lambda>r. map (cell_at r) (0 # q)) rs\<rparr>" for rs
  proof -
    have sub: "set (''timestamp'' # rest) \<subseteq> set (columns \<lparr>columns = ?cols, rows = rs\<rparr>)"
      by (auto simp: rest_def)
    have idx: "concat (map (\<lambda>l'. positions l' (columns \<lparr>columns = ?cols, rows = rs\<rparr>)) (''timestamp'' # rest)) = 0 # q"
      using nt by (simp add: q_def positions_head)
    show ?thesis
      unfolding present using select_columns_present [OF sub idx] by (simp add: C_def)
  qed
  show ?thesis using C_nt sel by blast
qed

lemma join_session_heads:
  fixes parse :: "string \<Rightarrow> ('n::linorder) literal option"
  assumes ca: "c \<notin> set la" and cg: "c \<notin> set lg"
    and la: "set la \<subseteq> {''accel_x'', ''accel_y'', ''accel_z''}"
    and lg: "set lg \<subseteq> {''gyro_x'', ''gyro_y'', ''gyro_z''}"
  shows "\<exists>C q. ''timestamp'' \<notin> set C \<and>
           (\<forall>ls rs. join_session to_float parse c \<lparr>columns = c # la, rows = ls\<rparr> \<lparr>columns = c # lg, rows = rs\<rparr> =
              Inr \<lparr>columns = ''timestamp'' # C,
                   rows = map (\<lambda>r. map (cell_at r) (0 # q))
                     (inner_join_rows 0 0 (Suc (length la)) (Suc (length lg))
                        (update_column (key_cast to_float 0 0 (to_numeric_rows to_float parse 0 ls)
                                          (to_numeric_rows to_float parse 0 rs)) 0
                           (to_numeric_rows to_float parse 0 ls))
                        (update_column (key_cast to_float 0 0 (to_numeric_rows to_float parse 0 ls)
                                          (to_numeric_rows to_float parse 0 rs)) 0
                           (to_numeric_rows to_float parse 0 rs)))\<rparr>)"
proof -
  have disj: "set la \<inter> set lg = {}" using la lg by auto
  have nt: "''timestamp'' \<notin> set (la @ lg)" using la lg by auto
  obtain C q where C: "''timestamp'' \<notin> set C"
    and sel: "\<And>rs :: 'n cell list list. select_columns (filter (\<lambda>c. c \<in> set (''timestamp'' # la @ lg)) OUTPUT_COLS)
                   \<lparr>columns = ''timestamp'' # la @ lg, rows = rs\<rparr> =
                 Inr \<lparr>columns = ''timestamp'' # C, rows = map (\<lambda>r. map (cell_at r) (0 # q)) rs\<rparr>"
    using final_select [OF nt] by blast
  have keep: "map (\<lambda>x. case [c \<mapsto> ''timestamp''] x of Some c' \<Rightarrow> c' | None \<Rightarrow> x) (la @ lg) = la @ lg"
    using ca cg by (intro map_idI) auto
  have ren: "rename_columns [c \<mapsto> ''timestamp''] \<lparr>columns = c # la @ lg, rows = J\<rparr> =
             \<lparr>columns = ''timestamp'' # la @ lg, rows = J\<rparr>" for J :: "'n cell list list"
    using keep by (simp add: rename_columns_def)
  have "join_session to_float parse c \<lparr>columns = c # la, rows = ls\<rparr> \<lparr>columns = c # lg, rows = rs\<rparr> =
      Inr \<lparr>columns = ''timestamp'' # C,
           rows = map (\<lambda>r. map (cell_at r) (0 # q))
             (inner_join_rows 0 0 (Suc (length la)) (Suc (length lg))
                (update_column (key_cast to_float 0 0 (to_numeric_rows to_float parse 0 ls)
                                  (to_numeric_rows to_float parse 0 rs)) 0
                   (to_numeric_rows to_float parse 0 ls))
                (update_column (key_cast to_float 0 0 (to_numeric_rows to_float parse 0 ls)
                                  (to_numeric_rows to_float parse 0 rs)) 0
                   (to_numeric_rows to_float parse 0 rs)))\<rparr>" for ls rs
  proof -
    define J where "J = inner_join_rows 0 0 (Suc (length la)) (Suc (length lg))
                (update_column (key_cast to_float 0 0 (to_numeric_rows to_float parse 0 ls)
                                  (to_numeric_rows to_float parse 0 rs)) 0
                   (to_numeric_rows to_float parse 0 ls))
                (update_column (key_cast to_float 0 0 (to_numeric_rows to_float parse 0 ls)
                                  (to_numeric_rows to_float parse 0 rs)) 0
                   (to_numeric_rows to_float parse 0 rs))"
    define M where "M = \<lparr>columns = c # la @ lg, rows = J\<rparr>"
    define M' where "M' = (if c \<noteq> ''timestamp'' then rename_columns [c \<mapsto> ''timestamp''] M else M)"
    have m: "pd_merge_inner to_float c
               \<lparr>columns = c # la, rows = to_numeric_rows to_float parse 0 ls\<rparr>
               \<lparr>columns = c # lg, rows = to_numeric_rows to_float parse 0 rs\<rparr>
             = Inr M"
      unfolding M_def J_def by (rule pd_merge_inner_heads [OF ca cg disj])
    have M': "M' = \<lparr>columns = ''timestamp'' # la @ lg, rows = J\<rparr>"
      unfolding M'_def M_def using ren [of J] by simp
    have fin: "select_columns (filter (\<lambda>x. x \<in> set (columns M')) OUTPUT_COLS) M' =
          Inr \<lparr>columns = ''timestamp'' # C, rows = map (\<lambda>r. map (cell_at r) (0 # q)) J\<rparr>"
      unfolding M' using sel [of J] by simp
    have "join_session to_float parse c \<lparr>columns = c # la, rows = ls\<rparr> \<lparr>columns = c # lg, rows = rs\<rparr> =
          select_columns (filter (\<lambda>x. x \<in> set (columns M')) OUTPUT_COLS) M'"
      unfolding join_session_def coerce_timestamps_heads [OF ca cg] M'_def
      by (simp only: Let_def prod.case m sum.case)
    then show ?thesis unfolding fin J_def .
  qed
  then show ?thesis using C by blast
qed

lemma positions_map_single:
  assumes one: "positions l' (map f cols) = [i]" and fl: "f l = l'" and mem: "l \<in> set cols"
  shows "positions l cols = [i]"
proof -
  have "positions l' (map f cols) = filter (\<lambda>k. f (cols ! k) = l') [0..<length cols]"
    unfolding positions_def by (auto intro: filter_cong)
  then have q: "filter (\<lambda>k. f (cols ! k) = l') [0..<length cols] = [i]" using one by simp
  have "positions l cols = filter (\<lambda>k. cols ! k = l) (filter (\<lambda>k. f (cols ! k) = l') [0..<length cols])"
    unfolding positions_def using fl by (auto intro: filter_cong)
  then have "positions l cols = filter (\<lambda>k. cols ! k = l) [i]" unfolding q .
  moreover have "positions l cols \<noteq> []" using mem by (rule positions_nonempty)
  ultimately show ?thesis by (auto split: if_splits)
qed

lemma choose_in_cols: "choose_timestamp_column df = Inr c \<Longrightarrow> c \<in> set (columns df)"
  by (auto simp: choose_timestamp_column_def split: option.splits list.splits dest: first_match_in)

lemma unify_ts_position:
  assumes u: "unify_timestamps a g = Inr (c, a1, g1)"
    and pa: "positions c (columns a1) = [ia]" and pg: "positions c (columns g1) = [ig]"
  shows "\<exists>ts_a ts_g. choose_timestamp_column a = Inr ts_a \<and> positions ts_a (columns a) = [ia] \<and>
                     choose_timestamp_column g = Inr ts_g \<and> positions ts_g (columns g) = [ig]"
proof -
  obtain ts_a ts_g where ch: "choose_timestamp_column a = Inr ts_a" "choose_timestamp_column g = Inr ts_g"
    using u by (auto simp: unify_timestamps_def split: sum.splits)
  have c: "c = (if ts_a = ts_g then ts_a else ''timestamp'')"
    and a1: "a1 = (if c \<noteq> ts_a then rename_columns [ts_a \<mapsto> c] a else a)"
    and g1: "g1 = (if c \<noteq> ts_g then rename_columns [ts_g \<mapsto> c] g else g)"
    using u ch by (auto simp: unify_timestamps_def Let_def)
  have "positions ts_a (columns a) = [ia]"
  proof (cases "c = ts_a")
    case True
    then show ?thesis using pa a1 by simp
  next
    case False
    then have "positions c (map (\<lambda>x. case [ts_a \<mapsto> c] x of Some c' \<Rightarrow> c' | None \<Rightarrow> x) (columns a)) = [ia]"
      using pa a1 by simp
    then show ?thesis
      by (rule positions_map_single) (simp_all add: choose_in_cols [OF ch(1)])
  qed
  moreover have "positions ts_g (columns g) = [ig]"
  proof (cases "c = ts_g")
    case True
    then show ?thesis using pg g1 by simp
  next
    case False
    then have "positions c (map (\<lambda>x. case [ts_g \<mapsto> c] x of Some c' \<Rightarrow> c' | None \<Rightarrow> x) (columns g)) = [ig]"
      using pg g1 by simp
    then show ?thesis
      by (rule positions_map_single) (simp_all add: choose_in_cols [OF ch(2)])
  qed
  ultimately show ?thesis using ch by blast
qed

lemma timestamp_values_position:
  "choose_timestamp_column df = Inr ts \<Longrightarrow> positions ts (columns df) = [i] \<Longrightarrow>
   timestamp_values to_float parse (df\<lparr>rows := rs\<rparr>) =
     to_numeric_cells to_float parse (map (\<lambda>r. cell_at r i) rs)"
  by (simp add: timestamp_values_def column_cells_def)

lemma cell_at_head: "cell_at (x # xs) 0 = x"
  by (simp add: cell_at_def)

lemma column_cast_NaN: "column_cast to_float cs NaN = NaN"
  by (simp add: column_cast_def)

lemma column_cast_cong: "set cs = set cs' \<Longrightarrow> column_cast to_float cs = column_cast to_float cs'"
  by (simp add: column_cast_def list_all_iff)

lemma keys_update_column:
  assumes "f NaN = NaN"
  shows "map (\<lambda>r. cell_at r i) (update_column f i rs) = map f (map (\<lambda>r. cell_at r i) rs)"
proof -
  have "cell_at (r[i := f (cell_at r i)]) i = f (cell_at r i)" for r
    using assms by (simp add: cell_at_def)
  then show ?thesis by (simp add: update_column_def comp_def)
qed

lemma numeric_form_None: "numeric_form rs None = NaN"
  by (simp add: numeric_form_def)

lemma numeric_form_cong: "set rs = set rs' \<Longrightarrow> numeric_form rs = numeric_form rs'"
  by (simp add: numeric_form_def list_all_iff)

lemma keys_to_numeric_rows:
  "map (\<lambda>r. cell_at r i) (to_numeric_rows to_float parse i rs) =
     to_numeric_cells to_float parse (map (\<lambda>r. cell_at r i) rs)"
proof -
  define form where "form = numeric_form (map (\<lambda>r. numeric_reading to_float parse (cell_at r i)) rs)"
  have n: "(\<lambda>c. form (numeric_reading to_float parse c)) NaN = NaN"
    by (simp add: form_def numeric_form_None)
  have "map (\<lambda>r. cell_at r i)
          (update_column (\<lambda>c. form (numeric_reading to_float parse c)) i rs) =
        map (\<lambda>c. form (numeric_reading to_float parse c)) (map (\<lambda>r. cell_at r i) rs)"
    using n by (rule keys_update_column)
  then show ?thesis
    by (simp add: to_numeric_rows_def to_numeric_cells_def Let_def form_def comp_def)
qed

lemma update_column_perm:
  "mset rs = mset rs' \<Longrightarrow> mset (update_column f i rs) = mset (update_column f i rs')"
  unfolding update_column_def by (metis mset_map)

lemma to_numeric_rows_perm:
  assumes "mset rs = mset rs'"
  shows "mset (to_numeric_rows to_float parse i rs) = mset (to_numeric_rows to_float parse i rs')"
proof -
  have "set rs = set rs'" using assms by (metis set_mset_mset)
  then have "set (map (\<lambda>r. numeric_reading to_float parse (cell_at r i)) rs) =
             set (map (\<lambda>r. numeric_reading to_float parse (cell_at r i)) rs')"
    by simp
  then have "numeric_form (map (\<lambda>r. numeric_reading to_float parse (cell_at r i)) rs) =
             numeric_form (map (\<lambda>r. numeric_reading to_float parse (cell_at r i)) rs')"
    by (rule numeric_form_cong)
  then show ?thesis
    using update_column_perm [OF assms] by (simp add: to_numeric_rows_def Let_def)
qed

lemma key_cast_perm:
  assumes "mset ls = mset ls'" "mset rs = mset rs'"
  shows "key_cast to_float i j ls rs = key_cast to_float i j ls' rs'"
proof -
  have "set ls = set ls'" "set rs = set rs'" using assms by (metis set_mset_mset)+
  then have "set (map (\<lambda>r. cell_at r i) ls @ map (\<lambda>r. cell_at r j) rs) =
             set (map (\<lambda>r. cell_at r i) ls' @ map (\<lambda>r. cell_at r j) rs')"
    by simp
  then show ?thesis unfolding key_cast_def by (rule column_cast_cong)
qed

text \<open>
  The rows that reach the comparison of the join, from the rows of the two selections: the
  keys coerced to numbers, then brought to one type.
\<close>

lemma join_operands:
  fixes to_float :: "int \<Rightarrow> 'n" and parse :: "string \<Rightarrow> 'n literal option"
  defines "L \<equiv> \<lambda>ls rs. update_column (key_cast to_float 0 0 (to_numeric_rows to_float parse 0 ls)
                                          (to_numeric_rows to_float parse 0 rs)) 0
                           (to_numeric_rows to_float parse 0 ls)"
    and "R \<equiv> \<lambda>ls rs. update_column (key_cast to_float 0 0 (to_numeric_rows to_float parse 0 ls)
                                          (to_numeric_rows to_float parse 0 rs)) 0
                           (to_numeric_rows to_float parse 0 rs)"
  shows "map (\<lambda>r. cell_at r 0) (L ls rs) =
           map (column_cast to_float
                  (to_numeric_cells to_float parse (map (\<lambda>r. cell_at r 0) ls) @
                   to_numeric_cells to_float parse (map (\<lambda>r. cell_at r 0) rs)))
             (to_numeric_cells to_float parse (map (\<lambda>r. cell_at r 0) ls))"
    and "map (\<lambda>r. cell_at r 0) (R ls rs) =
           map (column_cast to_float
                  (to_numeric_cells to_float parse (map (\<lambda>r. cell_at r 0) ls) @
                   to_numeric_cells to_float parse (map (\<lambda>r. cell_at r 0) rs)))
             (to_numeric_cells to_float parse (map (\<lambda>r. cell_at r 0) rs))"
    and "mset ls = mset ls' \<Longrightarrow> mset rs = mset rs' \<Longrightarrow>
         mset (L ls rs) = mset (L ls' rs') \<and> mset (R ls rs) = mset (R ls' rs')"
proof -
  have n: "map (\<lambda>r. cell_at r 0) (update_column (key_cast to_float 0 0 l2 r2) 0 xs) =
           map (key_cast to_float 0 0 l2 r2) (map (\<lambda>r. cell_at r 0) xs)"
    for l2 r2 xs :: "'n cell list list"
    by (rule keys_update_column) (simp add: key_cast_def column_cast_NaN)
  show "map (\<lambda>r. cell_at r 0) (L ls rs) =
           map (column_cast to_float
                  (to_numeric_cells to_float parse (map (\<lambda>r. cell_at r 0) ls) @
                   to_numeric_cells to_float parse (map (\<lambda>r. cell_at r 0) rs)))
             (to_numeric_cells to_float parse (map (\<lambda>r. cell_at r 0) ls))"
    unfolding L_def n keys_to_numeric_rows
    by (simp add: key_cast_def keys_to_numeric_rows)
  show "map (\<lambda>r. cell_at r 0) (R ls rs) =
           map (column_cast to_float
                  (to_numeric_cells to_float parse (map (\<lambda>r. cell_at r 0) ls) @
                   to_numeric_cells to_float parse (map (\<lambda>r. cell_at r 0) rs)))
             (to_numeric_cells to_float parse (map (\<lambda>r. cell_at r 0) rs))"
    unfolding R_def n keys_to_numeric_rows
    by (simp add: key_cast_def keys_to_numeric_rows)
  show "mset (L ls rs) = mset (L ls' rs') \<and> mset (R ls rs) = mset (R ls' rs')"
    if m: "mset ls = mset ls'" "mset rs = mset rs'"
  proof -
    have l2: "mset (to_numeric_rows to_float parse 0 ls) = mset (to_numeric_rows to_float parse 0 ls')"
      using m(1) by (rule to_numeric_rows_perm)
    have r2: "mset (to_numeric_rows to_float parse 0 rs) = mset (to_numeric_rows to_float parse 0 rs')"
      using m(2) by (rule to_numeric_rows_perm)
    have k: "key_cast to_float 0 0 (to_numeric_rows to_float parse 0 ls) (to_numeric_rows to_float parse 0 rs) =
             key_cast to_float 0 0 (to_numeric_rows to_float parse 0 ls') (to_numeric_rows to_float parse 0 rs')"
      using l2 r2 by (rule key_cast_perm)
    show ?thesis
      unfolding L_def R_def k using update_column_perm [OF l2] update_column_perm [OF r2] by blast
  qed
qed

lemma merge_session_ready:
  fixes parse :: "string \<Rightarrow> ('n::linorder) literal option" and a g :: "'n frame"
  assumes ready: "session_ready a g"
  shows "\<exists>C q L R nl nr.
           ''timestamp'' \<notin> set C \<and>
           (\<forall>ra rg. map (\<lambda>r. cell_at r 0) (L ra rg) =
                      fst (join_stamps to_float parse (a\<lparr>rows := ra\<rparr>) (g\<lparr>rows := rg\<rparr>)) \<and>
                    map (\<lambda>r. cell_at r 0) (R ra rg) =
                      snd (join_stamps to_float parse (a\<lparr>rows := ra\<rparr>) (g\<lparr>rows := rg\<rparr>))) \<and>
           (\<forall>ra rg ra' rg'. mset ra = mset ra' \<and> mset rg = mset rg' \<longrightarrow>
                      mset (L ra rg) = mset (L ra' rg') \<and> mset (R ra rg) = mset (R ra' rg')) \<and>
           (\<forall>ra rg. merge_session to_float parse (a\<lparr>rows := ra\<rparr>) (g\<lparr>rows := rg\<rparr>) =
              Inr \<lparr>columns = ''timestamp'' # C,
                   rows = map (\<lambda>r. map (cell_at r) (0 # q))
                            (inner_join_rows 0 0 (Suc nl) (Suc nr) (L ra rg) (R ra rg))\<rparr>)"
proof -
  obtain c a1 g1 where u: "unify_timestamps a g = Inr (c, a1, g1)"
    using ready by (cases "unify_timestamps a g") (auto simp: session_ready_def)
  obtain am where da: "detect_xyz_columns a1 = Inr am"
    using ready u by (cases "detect_xyz_columns a1") (auto simp: session_ready_def)
  obtain gm where dg: "detect_xyz_columns g1 = Inr gm"
    using ready u da by (cases "detect_xyz_columns g1") (auto simp: session_ready_def)
  have sa: "ts_single c am a1" and sg: "ts_single c gm g1"
    using ready u da dg by (simp_all add: session_ready_def)
  obtain ia pa la where ia: "positions c (columns a1) = [ia]"
    and la: "set la \<subseteq> {''accel'' @ ''_x'', ''accel'' @ ''_y'', ''accel'' @ ''_z''}"
    and sela: "\<And>rs. select_sensor ''accel'' c am (a1\<lparr>rows := rs\<rparr>) =
                   Inr \<lparr>columns = c # la, rows = map (\<lambda>r. map (cell_at r) (ia # pa)) rs\<rparr>"
    using select_sensor_ready [OF da sa, of "''accel''"] by blast
  obtain ig pg lg where ig: "positions c (columns g1) = [ig]"
    and lg: "set lg \<subseteq> {''gyro'' @ ''_x'', ''gyro'' @ ''_y'', ''gyro'' @ ''_z''}"
    and selg: "\<And>rs. select_sensor ''gyro'' c gm (g1\<lparr>rows := rs\<rparr>) =
                   Inr \<lparr>columns = c # lg, rows = map (\<lambda>r. map (cell_at r) (ig # pg)) rs\<rparr>"
    using select_sensor_ready [OF dg sg, of "''gyro''"] by blast
  have la': "set la \<subseteq> {''accel_x'', ''accel_y'', ''accel_z''}" using la by simp
  have lg': "set lg \<subseteq> {''gyro_x'', ''gyro_y'', ''gyro_z''}" using lg by simp
  have cn: "c \<notin> set (tl OUTPUT_COLS)" using u da sa by (rule ready_common_not_sensor)
  have sub: "{''accel_x'', ''accel_y'', ''accel_z''} \<subseteq> set (tl OUTPUT_COLS)"
    "{''gyro_x'', ''gyro_y'', ''gyro_z''} \<subseteq> set (tl OUTPUT_COLS)"
    by (simp_all add: OUTPUT_COLS_def)
  have ca: "c \<notin> set la" using cn la' sub(1) by blast
  have cg: "c \<notin> set lg" using cn lg' sub(2) by blast
  define L0 where "L0 = (\<lambda>(ls :: 'n cell list list) (rs :: 'n cell list list).
      update_column (key_cast to_float 0 0 (to_numeric_rows to_float parse 0 ls)
                       (to_numeric_rows to_float parse 0 rs)) 0
        (to_numeric_rows to_float parse 0 ls))"
  define R0 where "R0 = (\<lambda>(ls :: 'n cell list list) (rs :: 'n cell list list).
      update_column (key_cast to_float 0 0 (to_numeric_rows to_float parse 0 ls)
                       (to_numeric_rows to_float parse 0 rs)) 0
        (to_numeric_rows to_float parse 0 rs))"
  obtain C q where C: "''timestamp'' \<notin> set C"
    and js: "\<And>ls rs. join_session to_float parse c \<lparr>columns = c # la, rows = ls\<rparr> \<lparr>columns = c # lg, rows = rs\<rparr> =
              Inr \<lparr>columns = ''timestamp'' # C,
                   rows = map (\<lambda>r. map (cell_at r) (0 # q))
                     (inner_join_rows 0 0 (Suc (length la)) (Suc (length lg)) (L0 ls rs) (R0 ls rs))\<rparr>"
    using join_session_heads [OF ca cg la' lg', of to_float parse] unfolding L0_def R0_def by blast
  define sa' where "sa' = (\<lambda>r :: 'n cell list. map (cell_at r) (ia # pa))"
  define sg' where "sg' = (\<lambda>r :: 'n cell list. map (cell_at r) (ig # pg))"
  define L where "L = (\<lambda>ra rg. L0 (map sa' ra) (map sg' rg))"
  define R where "R = (\<lambda>ra rg. R0 (map sa' ra) (map sg' rg))"
  obtain ts_a ts_g where cha: "choose_timestamp_column a = Inr ts_a" "positions ts_a (columns a) = [ia]"
    and chg: "choose_timestamp_column g = Inr ts_g" "positions ts_g (columns g) = [ig]"
    using unify_ts_position [OF u ia ig] by blast
  have ka: "map (\<lambda>r. cell_at r 0) (map sa' ra) = map (\<lambda>r. cell_at r ia) ra" for ra
    by (simp add: sa'_def cell_at_head comp_def)
  have kg: "map (\<lambda>r. cell_at r 0) (map sg' rg) = map (\<lambda>r. cell_at r ig) rg" for rg
    by (simp add: sg'_def cell_at_head comp_def)
  have keys: "map (\<lambda>r. cell_at r 0) (L ra rg) =
                fst (join_stamps to_float parse (a\<lparr>rows := ra\<rparr>) (g\<lparr>rows := rg\<rparr>)) \<and>
              map (\<lambda>r. cell_at r 0) (R ra rg) =
                snd (join_stamps to_float parse (a\<lparr>rows := ra\<rparr>) (g\<lparr>rows := rg\<rparr>))" for ra rg
    unfolding L_def R_def L0_def R0_def join_operands(1,2) ka kg
    by (simp add: join_stamps_def Let_def timestamp_values_position [OF cha]
        timestamp_values_position [OF chg])
  have perm: "mset (L ra rg) = mset (L ra' rg') \<and> mset (R ra rg) = mset (R ra' rg')"
    if m: "mset ra = mset ra'" "mset rg = mset rg'" for ra rg ra' rg'
  proof -
    have 1: "mset (map sa' ra) = mset (map sa' ra')" using m(1) by (metis mset_map)
    have 2: "mset (map sg' rg) = mset (map sg' rg')" using m(2) by (metis mset_map)
    show ?thesis unfolding L_def R_def L0_def R0_def using 1 2 by (rule join_operands(3))
  qed
  have ms: "merge_session to_float parse (a\<lparr>rows := ra\<rparr>) (g\<lparr>rows := rg\<rparr>) =
      Inr \<lparr>columns = ''timestamp'' # C,
           rows = map (\<lambda>r. map (cell_at r) (0 # q))
                    (inner_join_rows 0 0 (Suc (length la)) (Suc (length lg)) (L ra rg) (R ra rg))\<rparr>"
    for ra rg
  proof -
    have prep: "prepare_session (a\<lparr>rows := ra\<rparr>) (g\<lparr>rows := rg\<rparr>) =
        Inr (c, \<lparr>columns = c # la, rows = map sa' ra\<rparr>,
                \<lparr>columns = c # lg, rows = map sg' rg\<rparr>)"
      unfolding prepare_session_def unify_rows [OF u] sa'_def sg'_def
      by (simp add: da dg sela selg)
    show ?thesis
      unfolding merge_session_def prep
      by (simp add: js L_def R_def)
  qed
  show ?thesis using C keys perm ms by blast
qed

lemma set_ints_of: "set (ints_of ks) = {v. IntNum v \<in> set ks}"
  by (induction ks) (auto simp: ints_of_def List.map_filter_simps split: cell.splits)

lemma set_floats_of: "set (floats_of ks) = {x. FloatNum x \<in> set ks}"
  by (induction ks) (auto simp: floats_of_def List.map_filter_simps split: cell.splits)

lemma set_texts_of: "set (texts_of ks) = {s. Text s \<in> set ks}"
  by (induction ks) (auto simp: texts_of_def List.map_filter_simps split: cell.splits)

lemma set_key_order: "set (key_order ks) = set ks"
proof -
  have "x \<in> set (key_order ks) \<longleftrightarrow> x \<in> set ks" for x
    by (cases x) (auto simp: key_order_def set_ints_of set_floats_of set_texts_of)
  then show ?thesis by blast
qed

lemma key_order_cong: "set ks = set ks' \<Longrightarrow> key_order ks = key_order ks'"
proof -
  assume e: "set ks = set ks'"
  have "sort (remdups (ints_of ks)) = sort (remdups (ints_of ks'))"
    using e by (simp add: sorted_list_of_set_sort_remdups [symmetric] set_ints_of)
  moreover have "sort (remdups (floats_of ks)) = sort (remdups (floats_of ks'))"
    using e by (simp add: sorted_list_of_set_sort_remdups [symmetric] set_floats_of)
  moreover have "sort (remdups (texts_of ks)) = sort (remdups (texts_of ks'))"
    using e by (simp add: sorted_list_of_set_sort_remdups [symmetric] set_texts_of)
  ultimately show ?thesis using e by (simp add: key_order_def)
qed

lemma joined_row_head: "cell_at (joined_row (Suc nl) nr j lr rr) 0 = cell_at lr 0"
proof -
  have "[0..<Suc nl] = 0 # [Suc 0..<Suc nl]" by (simp add: upt_conv_Cons del: upt_Suc)
  then show ?thesis by (simp add: joined_row_def cell_at_head del: upt_Suc)
qed

lemma length_concat_map_map:
  "length (concat (map (\<lambda>x. map (g x) F) L)) = length L * length F"
  by (induction L) auto

lemma join_group_keys:
  "map (\<lambda>r. cell_at r 0)
     (concat (map (\<lambda>lr. map (joined_row (Suc nl) nr j lr) F) (filter (\<lambda>lr. cell_at lr 0 = k) L))) =
   replicate (length (filter (\<lambda>lr. cell_at lr 0 = k) L) * length F) k"
proof -
  have "map (\<lambda>r. cell_at r 0)
     (concat (map (\<lambda>lr. map (joined_row (Suc nl) nr j lr) F) (filter (\<lambda>lr. cell_at lr 0 = k) L))) =
   replicate (length (concat (map (\<lambda>lr. map (joined_row (Suc nl) nr j lr) F)
       (filter (\<lambda>lr. cell_at lr 0 = k) L)))) k"
    by (rule map_const_replicate) (auto simp: joined_row_head)
  then show ?thesis by (simp only: length_concat_map_map)
qed

lemma inner_join_rows_keys:
  "map (\<lambda>r. cell_at r 0) (inner_join_rows 0 0 (Suc nl) (Suc nr) ls rs) =
     concat (map (\<lambda>k. replicate (length (filter (\<lambda>lr. cell_at lr 0 = k) ls) *
                                  length (filter (\<lambda>rr. cell_at rr 0 = k) rs)) k)
               (filter (\<lambda>k. k \<in> set (map (\<lambda>r. cell_at r 0) rs))
                  (key_order (map (\<lambda>r. cell_at r 0) ls))))"
proof -
  have c: "map f (concat (map G ks)) = concat (map (\<lambda>k. map f (G k)) ks)"
    for f :: "'a cell list \<Rightarrow> 'a cell" and G :: "'a cell \<Rightarrow> 'a cell list list" and ks
    by (simp add: map_concat comp_def)
  show ?thesis
    unfolding inner_join_rows_def Let_def c join_group_keys ..
qed

lemma length_filter_pos: "k \<in> set (map f xs) \<Longrightarrow> 0 < length (filter (\<lambda>x. f x = k) xs)"
  by (induction xs) auto

lemma inner_join_rows_disjoint:
  assumes "set (map (\<lambda>r. cell_at r i) ls) \<inter> set (map (\<lambda>r. cell_at r j) rs) = {}"
  shows "inner_join_rows i j nl nr ls rs = []"
proof -
  have "filter (\<lambda>k. k \<in> set (map (\<lambda>r. cell_at r j) rs)) (key_order (map (\<lambda>r. cell_at r i) ls)) = []"
    using assms set_key_order [of "map (\<lambda>r. cell_at r i) ls"] by (auto simp: filter_empty_conv)
  then show ?thesis by (simp add: inner_join_rows_def Let_def)
qed

lemma filter_key_unique: "distinct (map f xs) \<Longrightarrow> length (filter (\<lambda>x. f x = k) xs) \<le> 1"
proof (induction xs)
  case Nil
  then show ?case by simp
next
  case (Cons x xs)
  have "f x = k \<Longrightarrow> filter (\<lambda>x. f x = k) xs = []"
  proof -
    assume e: "f x = k"
    have "f x \<notin> f ` set xs" using Cons.prems by simp
    then have "\<forall>y\<in>set xs. f y \<noteq> k" using e by blast
    then show ?thesis by (simp add: filter_empty_conv)
  qed
  then show ?case using Cons by auto
qed

lemma short_mset_eq: "mset xs = mset ys \<Longrightarrow> length xs \<le> 1 \<Longrightarrow> xs = ys"
proof -
  assume m: "mset xs = mset ys" and l: "length xs \<le> 1"
  have len: "length ys = length xs" using m by (metis size_mset)
  show ?thesis
  proof (cases xs)
    case Nil
    then show ?thesis using len by simp
  next
    case (Cons x xs')
    then have xs: "xs = [x]" using l by simp
    then obtain y where ys: "ys = [y]" using len by (cases ys) auto
    then show ?thesis using m xs by simp
  qed
qed

lemma filter_perm_unique:
  assumes "mset xs = mset ys" "distinct (map f xs)"
  shows "filter (\<lambda>x. f x = k) xs = filter (\<lambda>x. f x = k) ys"
proof -
  have "mset (filter (\<lambda>x. f x = k) xs) = mset (filter (\<lambda>x. f x = k) ys)"
    using assms(1) by simp
  then show ?thesis using filter_key_unique [OF assms(2)] by (rule short_mset_eq)
qed

lemma inner_join_rows_perm:
  assumes ml: "mset ls = mset ls'" and dl: "distinct (map (\<lambda>r. cell_at r i) ls)"
    and mr: "mset rs = mset rs'" and dr: "distinct (map (\<lambda>r. cell_at r j) rs)"
  shows "inner_join_rows i j nl nr ls rs = inner_join_rows i j nl nr ls' rs'"
proof -
  have sl: "set (map (\<lambda>r. cell_at r i) ls) = set (map (\<lambda>r. cell_at r i) ls')"
    using ml by (metis mset_map set_mset_mset)
  have sr: "set (map (\<lambda>r. cell_at r j) rs) = set (map (\<lambda>r. cell_at r j) rs')"
    using mr by (metis mset_map set_mset_mset)
  have ko: "key_order (map (\<lambda>r. cell_at r i) ls) = key_order (map (\<lambda>r. cell_at r i) ls')"
    using sl by (rule key_order_cong)
  have fl: "filter (\<lambda>lr. cell_at lr i = k) ls = filter (\<lambda>lr. cell_at lr i = k) ls'" for k
    using ml dl by (rule filter_perm_unique)
  have fr: "filter (\<lambda>rr. cell_at rr j = k) rs = filter (\<lambda>rr. cell_at rr j = k) rs'" for k
    using mr dr by (rule filter_perm_unique)
  show ?thesis
    unfolding inner_join_rows_def Let_def ko sr fl fr ..
qed

lemma inner_join_rows_keys_distinct:
  assumes dl: "distinct (map (\<lambda>r. cell_at r 0) ls)" and dr: "distinct (map (\<lambda>r. cell_at r 0) rs)"
  shows "map (\<lambda>r. cell_at r 0) (inner_join_rows 0 0 (Suc nl) (Suc nr) ls rs) =
           filter (\<lambda>k. k \<in> set (map (\<lambda>r. cell_at r 0) rs)) (key_order (map (\<lambda>r. cell_at r 0) ls))"
proof -
  let ?ks = "filter (\<lambda>k. k \<in> set (map (\<lambda>r. cell_at r 0) rs)) (key_order (map (\<lambda>r. cell_at r 0) ls))"
  have one: "replicate (length (filter (\<lambda>lr. cell_at lr 0 = k) ls) *
                        length (filter (\<lambda>rr. cell_at rr 0 = k) rs)) k = [k]" if "k \<in> set ?ks" for k
  proof -
    have kl: "k \<in> set (map (\<lambda>r. cell_at r 0) ls)" and kr: "k \<in> set (map (\<lambda>r. cell_at r 0) rs)"
      using that set_key_order [of "map (\<lambda>r. cell_at r 0) ls"] by auto
    have "length (filter (\<lambda>lr. cell_at lr 0 = k) ls) = 1"
      using filter_key_unique [OF dl, of k] length_filter_pos [OF kl] by linarith
    moreover have "length (filter (\<lambda>rr. cell_at rr 0 = k) rs) = 1"
      using filter_key_unique [OF dr, of k] length_filter_pos [OF kr] by linarith
    ultimately show ?thesis by simp
  qed
  have "concat (map (\<lambda>k. replicate (length (filter (\<lambda>lr. cell_at lr 0 = k) ls) *
                        length (filter (\<lambda>rr. cell_at rr 0 = k) rs)) k) ?ks) =
        concat (map (\<lambda>k. [k]) ?ks)"
    using one by (intro arg_cong [where f = concat] map_cong) auto
  also have "\<dots> = ?ks" by (induction ?ks) auto
  finally show ?thesis unfolding inner_join_rows_keys .
qed

lemma frame_rows_update: "columns (a' :: 'n frame) = columns a \<Longrightarrow> a' = a\<lparr>rows := rows a'\<rparr>"
  by (cases a, cases a') simp

lemma column_cells_timestamp_head:
  "''timestamp'' \<notin> set C \<Longrightarrow>
   column_cells ''timestamp'' \<lparr>columns = ''timestamp'' # C, rows = map (\<lambda>r. map (cell_at r) (0 # q)) J\<rparr> =
     map (\<lambda>r. cell_at r 0) J"
  by (simp add: column_cells_def positions_head cell_at_head)

lemma positions_Nil: "positions l [] = []"
  by (simp add: positions_def)

lemma length_positions: "length (positions l cols) = count_list cols l"
  by (induction cols) (simp_all add: positions_Cons positions_Nil)

lemma to_numeric_column_columns:
  "to_numeric_column to_float parse l df = Inr df' \<Longrightarrow> columns df' = columns df"
  by (auto simp: to_numeric_column_def split: list.splits)

lemma coerce_timestamps_columns:
  "coerce_timestamps to_float parse c a_sel g_sel = (a2, g2) \<Longrightarrow>
   columns a2 = columns a_sel \<and> columns g2 = columns g_sel"
  by (auto simp: coerce_timestamps_def split: sum.splits dest: to_numeric_column_columns)

lemma pd_merge_inner_Inr:
  "pd_merge_inner to_float key left right = Inr m \<Longrightarrow>
   length (positions key (columns left)) = 1 \<and> length (positions key (columns right)) = 1"
  by (auto simp: pd_merge_inner_def Let_def split: list.splits)

lemma join_session_Inr:
  assumes "join_session to_float parse c a_sel g_sel = Inr m"
  shows "count_list (columns a_sel) c = 1 \<and> count_list (columns g_sel) c = 1"
proof -
  obtain a2 g2 where co: "coerce_timestamps to_float parse c a_sel g_sel = (a2, g2)"
    by (cases "coerce_timestamps to_float parse c a_sel g_sel") auto
  obtain merged where "pd_merge_inner to_float c a2 g2 = Inr merged"
    using assms co by (cases "pd_merge_inner to_float c a2 g2") (auto simp: join_session_def)
  then show ?thesis
    using pd_merge_inner_Inr [of to_float c a2 g2 merged] coerce_timestamps_columns [OF co]
    by (simp add: length_positions)
qed

lemma select_columns_Inr:
  assumes "select_columns labels df = Inr sel"
  shows "columns sel = concat (map (\<lambda>l. replicate (count_list (columns df) l) l) labels)"
proof -
  have "columns sel = map (\<lambda>i. columns df ! i) (concat (map (\<lambda>l. positions l (columns df)) labels))"
    using assms by (auto simp: select_columns_def Let_def split: option.splits)
  also have "\<dots> = concat (map (\<lambda>l. map (\<lambda>i. columns df ! i) (positions l (columns df))) labels)"
    by (simp add: map_concat comp_def)
  also have "\<dots> = concat (map (\<lambda>l. replicate (count_list (columns df) l) l) labels)"
    by (simp add: positions_labels length_positions)
  finally show ?thesis .
qed

lemma count_list_replicate: "count_list (replicate n x) y = (if x = y then n else 0)"
  by (induction n) auto

lemma count_list_append: "count_list (xs @ ys) y = count_list xs y + count_list ys y"
  by (induction xs) auto

lemma count_list_map_replicate: "count_list (map f (replicate n x)) y = (if f x = y then n else 0)"
  by (induction n) auto

lemma select_sensor_Inr:
  assumes "select_sensor prefix c m df = Inr sel"
  shows "\<exists>cx cy cz. m X = Some cx \<and> m Y = Some cy \<and> m Z = Some cz \<and>
           (\<forall>l. count_list (columns sel) l =
              (\<Sum>k\<leftarrow>[c, cx, cy, cz].
                 if (case (Map.empty(cx \<mapsto> prefix @ ''_x'', cy \<mapsto> prefix @ ''_y'', cz \<mapsto> prefix @ ''_z'')) k of
                       Some k' \<Rightarrow> k' | None \<Rightarrow> k) = l
                 then count_list (columns df) k else 0))"
proof -
  obtain cx cy cz where c3: "m X = Some cx" "m Y = Some cy" "m Z = Some cz"
    using assms by (auto simp: select_sensor_def split: option.splits)
  obtain s0 where s0: "select_columns [c, cx, cy, cz] df = Inr s0"
    using assms c3 by (cases "select_columns [c, cx, cy, cz] df") (auto simp: select_sensor_def)
  define D where "D = Map.empty(cx \<mapsto> prefix @ ''_x'', cy \<mapsto> prefix @ ''_y'', cz \<mapsto> prefix @ ''_z'')"
  define ren where "ren = (\<lambda>k. case D k of Some k' \<Rightarrow> k' | None \<Rightarrow> k)"
  have sel: "sel = rename_columns D s0"
    using assms c3 s0 by (simp add: select_sensor_def D_def)
  have "columns sel = map ren (concat (map (\<lambda>l. replicate (count_list (columns df) l) l) [c, cx, cy, cz]))"
    unfolding sel using select_columns_Inr [OF s0] by (simp add: ren_def)
  then have "count_list (columns sel) l =
       (\<Sum>k\<leftarrow>[c, cx, cy, cz]. if ren k = l then count_list (columns df) k else 0)" for l
    by (simp add: count_list_append count_list_replicate)
  then show ?thesis using c3 unfolding ren_def D_def by blast
qed

lemma axis_passes_match:
  "axis_passes cols b = Some c \<Longrightarrow> token_match b c \<or> suffix_match b c \<or> exact_match b c"
  by (auto simp: axis_passes_apply split: option.splits dest: find_holds)

lemma own_label_facts:
  "list_all (\<lambda>p. list_all (\<lambda>ax.
      token_match ax (p @ ''_'' @ axis_name ax) \<and>
      \<not> list_ex (\<lambda>q. re_search_ci [q] (p @ ''_'' @ axis_name ax)) TS_PATTERNS \<and>
      list_all (\<lambda>b. b = ax \<or>
          (\<not> token_match b (p @ ''_'' @ axis_name ax) \<and>
           \<not> suffix_match b (p @ ''_'' @ axis_name ax) \<and>
           \<not> exact_match b (p @ ''_'' @ axis_name ax))) [X, Y, Z]) [X, Y, Z])
     [''accel'', ''gyro'']"
  by code_simp

lemma own_label_axis:
  assumes p: "p \<in> set [''accel'', ''gyro'']"
  shows "token_match ax (p @ ''_'' @ axis_name ax) \<and>
         \<not> list_ex (\<lambda>q. re_search_ci [q] (p @ ''_'' @ axis_name ax)) TS_PATTERNS \<and>
         (\<forall>b. b \<noteq> ax \<longrightarrow>
            \<not> token_match b (p @ ''_'' @ axis_name ax) \<and>
            \<not> suffix_match b (p @ ''_'' @ axis_name ax) \<and>
            \<not> exact_match b (p @ ''_'' @ axis_name ax))"
proof -
  have ax: "ax \<in> set [X, Y, Z]" by (cases ax) simp_all
  have bs: "b \<in> set [X, Y, Z]" for b by (cases b) simp_all
  have "\<forall>p\<in>set [''accel'', ''gyro'']. \<forall>ax\<in>set [X, Y, Z].
      token_match ax (p @ ''_'' @ axis_name ax) \<and>
      \<not> list_ex (\<lambda>q. re_search_ci [q] (p @ ''_'' @ axis_name ax)) TS_PATTERNS \<and>
      (\<forall>b\<in>set [X, Y, Z]. b = ax \<or>
          (\<not> token_match b (p @ ''_'' @ axis_name ax) \<and>
           \<not> suffix_match b (p @ ''_'' @ axis_name ax) \<and>
           \<not> exact_match b (p @ ''_'' @ axis_name ax)))"
    using own_label_facts by (simp only: list_all_iff)
  then have "token_match ax (p @ ''_'' @ axis_name ax) \<and>
      \<not> list_ex (\<lambda>q. re_search_ci [q] (p @ ''_'' @ axis_name ax)) TS_PATTERNS \<and>
      (\<forall>b\<in>set [X, Y, Z]. b = ax \<or>
          (\<not> token_match b (p @ ''_'' @ axis_name ax) \<and>
           \<not> suffix_match b (p @ ''_'' @ axis_name ax) \<and>
           \<not> exact_match b (p @ ''_'' @ axis_name ax)))"
    using p ax by blast
  then show ?thesis using bs by blast
qed

lemma own_label_kept:
  assumes ch: "choose_timestamp_column df = Inr c" and det: "detect_xyz_columns df = Inr m"
    and c: "c = p @ ''_'' @ axis_name ax" and p: "p \<in> set [''accel'', ''gyro'']"
  shows "m ax = Some c \<and> (\<forall>b. b \<noteq> ax \<longrightarrow> m b \<noteq> Some c)"
proof -
  have f: "token_match ax c" "\<not> list_ex (\<lambda>q. re_search_ci [q] c) TS_PATTERNS"
    "\<And>b. b \<noteq> ax \<Longrightarrow> \<not> token_match b c \<and> \<not> suffix_match b c \<and> \<not> exact_match b c"
    using own_label_axis [OF p, of ax] unfolding c by blast+
  have "first_match TS_PATTERNS (columns df) \<noteq> Some d" for d
  proof
    assume fm: "first_match TS_PATTERNS (columns df) = Some d"
    then have "choose_timestamp_column df = Inr d" by (simp add: choose_timestamp_column_def)
    then have "d = c" using ch by simp
    then show False using first_match_holds [OF fm] f(2) by (auto simp: list_ex_iff)
  qed
  then have "first_match TS_PATTERNS (columns df) = None"
    by (cases "first_match TS_PATTERNS (columns df)") auto
  then obtain rest where cols: "columns df = c # rest"
    using ch by (auto simp: choose_timestamp_column_def split: list.splits)
  have m: "m = axis_passes (columns df)" using det by (simp add: detect_Inr_iff)
  have 1: "m ax = Some c" using f(1) by (simp add: m axis_passes_apply cols)
  have 2: "m b \<noteq> Some c" if "b \<noteq> ax" for b
    using f(3) [OF that] axis_passes_match [of "columns df" b c] by (auto simp: m)
  show ?thesis using 1 2 by blast
qed

lemma rename_columns_target:
  assumes "l \<in> set (columns df)"
  shows "l' \<in> set (columns (rename_columns [l \<mapsto> l'] df))"
proof -
  have "l' = (\<lambda>x. case [l \<mapsto> l'] x of Some c' \<Rightarrow> c' | None \<Rightarrow> x) l" by simp
  then have "l' \<in> (\<lambda>x. case [l \<mapsto> l'] x of Some c' \<Rightarrow> c' | None \<Rightarrow> x) ` set (columns df)"
    using assms by (rule image_eqI)
  then show ?thesis by (simp only: rename_columns_sel set_map)
qed

lemma unify_common:
  assumes u: "unify_timestamps a g = Inr (c, a1, g1)"
  shows "c \<in> set (columns a1) \<and> c \<in> set (columns g1) \<and>
         (c \<noteq> ''timestamp'' \<longrightarrow>
            choose_timestamp_column a1 = Inr c \<and> choose_timestamp_column g1 = Inr c)"
proof -
  obtain ts_a where cha: "choose_timestamp_column a = Inr ts_a"
    using u by (cases "choose_timestamp_column a") (simp_all add: unify_timestamps_def)
  obtain ts_g where chg: "choose_timestamp_column g = Inr ts_g"
    using u cha by (cases "choose_timestamp_column g") (simp_all add: unify_timestamps_def)
  have ma: "ts_a \<in> set (columns a)" using cha by (rule choose_in_cols)
  have mg: "ts_g \<in> set (columns g)" using chg by (rule choose_in_cols)
  show ?thesis
  proof (cases "ts_a = ts_g")
    case True
    then have "c = ts_a" "a1 = a" "g1 = g"
      using u cha chg by (simp_all add: unify_timestamps_def Let_def)
    then show ?thesis using True cha chg ma mg by simp
  next
    case False
    then have c: "c = ''timestamp''"
      and a1: "a1 = (if ''timestamp'' \<noteq> ts_a then rename_columns [ts_a \<mapsto> ''timestamp''] a else a)"
      and g1: "g1 = (if ''timestamp'' \<noteq> ts_g then rename_columns [ts_g \<mapsto> ''timestamp''] g else g)"
      using u cha chg by (auto simp: unify_timestamps_def Let_def)
    have 1: "''timestamp'' \<in> set (columns a1)"
    proof (cases "''timestamp'' = ts_a")
      case True
      then show ?thesis unfolding a1 using ma by simp
    next
      case False
      then show ?thesis unfolding a1 using rename_columns_target [OF ma, of "''timestamp''"] by simp
    qed
    have 2: "''timestamp'' \<in> set (columns g1)"
    proof (cases "''timestamp'' = ts_g")
      case True
      then show ?thesis unfolding g1 using mg by simp
    next
      case False
      then show ?thesis unfolding g1 using rename_columns_target [OF mg, of "''timestamp''"] by simp
    qed
    show ?thesis unfolding c using 1 2 by simp
  qed
qed

lemma count_list_pos: "x \<in> set xs \<Longrightarrow> 0 < count_list xs x"
  by (induction xs) auto

lemma select_sensor_key_once:
  assumes mem: "c \<in> set (columns df)"
    and ch: "c \<noteq> ''timestamp'' \<Longrightarrow> choose_timestamp_column df = Inr c"
    and det: "detect_xyz_columns df = Inr m"
    and sel: "select_sensor p c m df = Inr s"
    and once: "count_list (columns s) c = 1"
    and p: "p \<in> set [''accel'', ''gyro'']"
  shows "ts_single c m df"
proof -
  let ?n = "count_list (columns df)"
  define px where "px = p @ ''_x''"
  define py where "py = p @ ''_y''"
  define pz where "pz = p @ ''_z''"
  obtain cx cy cz where c3: "m X = Some cx" "m Y = Some cy" "m Z = Some cz"
    and cnt: "\<And>l. count_list (columns s) l =
              (\<Sum>k\<leftarrow>[c, cx, cy, cz].
                 if (case (Map.empty(cx \<mapsto> px, cy \<mapsto> py, cz \<mapsto> pz)) k of
                       Some k' \<Rightarrow> k' | None \<Rightarrow> k) = l
                 then ?n k else 0)"
    using select_sensor_Inr [OF sel] unfolding px_def py_def pz_def by blast
  define ren where "ren = (\<lambda>k. case (Map.empty(cx \<mapsto> px, cy \<mapsto> py, cz \<mapsto> pz)) k of
                       Some k' \<Rightarrow> k' | None \<Rightarrow> k)"
  have sum: "(if ren c = c then ?n c else 0) + (if ren cx = c then ?n cx else 0) +
             (if ren cy = c then ?n cy else 0) + (if ren cz = c then ?n cz else 0) = 1"
    using cnt [of c] once by (simp add: ren_def)
  have nc: "0 < ?n c" using mem by (rule count_list_pos)
  have m: "m = axis_passes (columns df)" using det by (simp add: detect_Inr_iff)
  show ?thesis
  proof (cases "c \<in> {cx, cy, cz}")
    case False
    then have "ren c = c" by (simp add: ren_def)
    then have "?n c = 1" using sum nc by (simp split: if_splits)
    then show ?thesis using False c3 by (auto simp: ts_single_def length_positions)
  next
    case True
    have rin: "ren k \<in> {px, py, pz}" if "k \<in> {c, cx, cy, cz}" for k
      using that True by (auto simp: ren_def)
    have "c \<in> {px, py, pz}"
    proof (rule ccontr)
      assume "c \<notin> {px, py, pz}"
      then have "ren k \<noteq> c" if "k \<in> {c, cx, cy, cz}" for k using rin [OF that] by auto
      then show False using sum by simp
    qed
    then obtain ax where cax: "c = p @ ''_'' @ axis_name ax"
      unfolding px_def py_def pz_def
      by (metis append_Cons append_Nil axis_name.simps insertE singletonD)
    have "c \<noteq> ''timestamp''" using cax p by (cases ax) auto
    then have chc: "choose_timestamp_column df = Inr c" by (rule ch)
    have own: "m ax = Some c" "\<And>b. b \<noteq> ax \<Longrightarrow> m b \<noteq> Some c"
      using own_label_kept [OF chc det cax p] by blast+
    have "ren c = c \<and> (cx = c \<or> cy = c \<or> cz = c)"
      using own c3 cax by (cases ax) (auto simp: ren_def px_def py_def pz_def)
    then have "2 * ?n c \<le> (if ren c = c then ?n c else 0) + (if ren cx = c then ?n cx else 0) +
             (if ren cy = c then ?n cy else 0) + (if ren cz = c then ?n cz else 0)"
      by auto
    then show ?thesis using sum nc by simp
  qed
qed

lemma merge_session_Inr_ready:
  assumes "merge_session to_float parse a g = Inr m"
  shows "session_ready a g"
proof -
  obtain c a_sel g_sel where prep: "prepare_session a g = Inr (c, a_sel, g_sel)"
    and j: "join_session to_float parse c a_sel g_sel = Inr m"
    using assms
    by (cases "prepare_session a g") (auto simp: merge_session_def split: prod.splits)
  obtain c' a1 g1 where u': "unify_timestamps a g = Inr (c', a1, g1)"
    using prep by (cases "unify_timestamps a g") (auto simp: prepare_session_def)
  obtain am where da: "detect_xyz_columns a1 = Inr am"
    using prep u' by (cases "detect_xyz_columns a1") (auto simp: prepare_session_def)
  obtain gm where dg: "detect_xyz_columns g1 = Inr gm"
    using prep u' da by (cases "detect_xyz_columns g1") (auto simp: prepare_session_def)
  obtain sa where sa: "select_sensor ''accel'' c' am a1 = Inr sa"
    using prep u' da dg by (cases "select_sensor ''accel'' c' am a1") (auto simp: prepare_session_def)
  obtain sg where sg: "select_sensor ''gyro'' c' gm g1 = Inr sg"
    using prep u' da dg sa by (cases "select_sensor ''gyro'' c' gm g1") (auto simp: prepare_session_def)
  have e: "c' = c" "sa = a_sel" "sg = g_sel"
    using prep u' da dg sa sg by (simp_all add: prepare_session_def)
  have u: "unify_timestamps a g = Inr (c, a1, g1)" using u' e by simp
  have once: "count_list (columns a_sel) c = 1" "count_list (columns g_sel) c = 1"
    using join_session_Inr [OF j] by simp_all
  have uc: "c \<in> set (columns a1)" "c \<in> set (columns g1)"
    "c \<noteq> ''timestamp'' \<Longrightarrow> choose_timestamp_column a1 = Inr c"
    "c \<noteq> ''timestamp'' \<Longrightarrow> choose_timestamp_column g1 = Inr c"
    using unify_common [OF u] by blast+
  have pa: "''accel'' \<in> set [''accel'', ''gyro'']" and pg: "''gyro'' \<in> set [''accel'', ''gyro'']"
    by simp_all
  have "ts_single c am a1"
    using uc(1) uc(3) da sa [unfolded e] once(1) pa by (rule select_sensor_key_once)
  moreover have "ts_single c gm g1"
    using uc(2) uc(4) dg sg [unfolded e] once(2) pg by (rule select_sensor_key_once)
  ultimately show ?thesis by (simp add: session_ready_def u da dg)
qed

text \<open>
  The ready pairs of tables are exactly those on which \<open>merge_session\<close> raises no
  exception.
\<close>

lemma merge_session_returns_iff_ready:
  fixes parse :: "string \<Rightarrow> ('n::linorder) literal option" and a g :: "'n frame"
  shows "(\<exists>m. merge_session to_float parse a g = Inr m) = session_ready a g"
proof
  assume "\<exists>m. merge_session to_float parse a g = Inr m"
  then show "session_ready a g" using merge_session_Inr_ready by blast
next
  assume r: "session_ready a g"
  obtain C q L R nl nr where
    "\<And>ra rg. merge_session to_float parse (a\<lparr>rows := ra\<rparr>) (g\<lparr>rows := rg\<rparr>) =
              Inr \<lparr>columns = ''timestamp'' # C,
                   rows = map (\<lambda>r. map (cell_at r) (0 # q))
                            (inner_join_rows 0 0 (Suc nl) (Suc nr) (L ra rg) (R ra rg))\<rparr>"
    using merge_session_ready [OF r, of to_float parse] by blast
  from this [of "rows a" "rows g"] show "\<exists>m. merge_session to_float parse a g = Inr m" by simp
qed

subsection \<open>The example tables, evaluated step by step\<close>

lemma ex_unify_example:
  "unify_timestamps accel_example gyro_example =
     Inr (''timestamp'', accel_example\<lparr>columns := [''timestamp'', ''ax'', ''ay'', ''az'']\<rparr>,
          gyro_example\<lparr>columns := [''timestamp'', ''gyro_x'', ''gyro_y'', ''gyro_z'']\<rparr>)"
  by code_simp

lemma ex_unify_late:
  "unify_timestamps accel_example gyro_late =
     Inr (''timestamp'', accel_example\<lparr>columns := [''timestamp'', ''ax'', ''ay'', ''az'']\<rparr>,
          gyro_late\<lparr>columns := [''timestamp'', ''gyro_x'', ''gyro_y'', ''gyro_z'']\<rparr>)"
  by code_simp

lemma ex_unify_bad_bad:
  "unify_timestamps accel_bad_stamp gyro_bad_stamp =
     Inr (''timestamp'', accel_bad_stamp, gyro_bad_stamp)"
  by code_simp

lemma ex_unify_no_z:
  "unify_timestamps accel_no_z gyro_example =
     Inr (''timestamp'', accel_no_z,
          gyro_example\<lparr>columns := [''timestamp'', ''gyro_x'', ''gyro_y'', ''gyro_z'']\<rparr>)"
  by code_simp

lemma ex_unify_axes:
  "unify_timestamps accel_axes_only gyro_axes_only = Inr (''x'', accel_axes_only, gyro_axes_only)"
  by code_simp

lemma ex_unify_axes_late:
  "unify_timestamps accel_axes_only gyro_axes_late = Inr (''x'', accel_axes_only, gyro_axes_late)"
  by code_simp

lemma ex_detect_accel_example:
  "detect_xyz_columns (accel_example\<lparr>columns := [''timestamp'', ''ax'', ''ay'', ''az'']\<rparr>) =
     Inr [X \<mapsto> ''ax'', Y \<mapsto> ''ay'', Z \<mapsto> ''az'']"
  by code_simp

lemma ex_detect_gyro_example:
  "detect_xyz_columns (gyro_example\<lparr>columns := [''timestamp'', ''gyro_x'', ''gyro_y'', ''gyro_z'']\<rparr>) =
     Inr [X \<mapsto> ''gyro_x'', Y \<mapsto> ''gyro_y'', Z \<mapsto> ''gyro_z'']"
  by code_simp

lemma ex_detect_gyro_late:
  "detect_xyz_columns (gyro_late\<lparr>columns := [''timestamp'', ''gyro_x'', ''gyro_y'', ''gyro_z'']\<rparr>) =
     Inr [X \<mapsto> ''gyro_x'', Y \<mapsto> ''gyro_y'', Z \<mapsto> ''gyro_z'']"
  by code_simp

lemma ex_detect_accel_bad:
  "detect_xyz_columns accel_bad_stamp = Inr [X \<mapsto> ''x'', Y \<mapsto> ''y'', Z \<mapsto> ''z'']"
  by code_simp

lemma ex_detect_gyro_bad:
  "detect_xyz_columns gyro_bad_stamp = Inr [X \<mapsto> ''x'', Y \<mapsto> ''y'', Z \<mapsto> ''z'']"
  by code_simp

lemma ex_detect_no_z:
  "detect_xyz_columns accel_no_z =
     Inl (ValueError [''timestamp'', ''x'', ''y''] [X \<mapsto> ''x'', Y \<mapsto> ''y''])"
  by code_simp

lemma ex_detect_accel_axes:
  "detect_xyz_columns accel_axes_only = Inr [X \<mapsto> ''x'', Y \<mapsto> ''y'', Z \<mapsto> ''z'']"
  by code_simp

lemma ex_detect_gyro_axes:
  "detect_xyz_columns gyro_axes_only = Inr [X \<mapsto> ''x'', Y \<mapsto> ''y'', Z \<mapsto> ''z'']"
  by code_simp

lemma ex_detect_gyro_axes_late:
  "detect_xyz_columns gyro_axes_late = Inr [X \<mapsto> ''x'', Y \<mapsto> ''y'', Z \<mapsto> ''z'']"
  by code_simp

lemma ex_single_accel_example:
  "ts_single ''timestamp'' [X \<mapsto> ''ax'', Y \<mapsto> ''ay'', Z \<mapsto> ''az'']
     (accel_example\<lparr>columns := [''timestamp'', ''ax'', ''ay'', ''az'']\<rparr>)"
  by code_simp

lemma ex_single_gyro_example:
  "ts_single ''timestamp'' [X \<mapsto> ''gyro_x'', Y \<mapsto> ''gyro_y'', Z \<mapsto> ''gyro_z'']
     (gyro_example\<lparr>columns := [''timestamp'', ''gyro_x'', ''gyro_y'', ''gyro_z'']\<rparr>)"
  by code_simp

lemma ex_single_gyro_late:
  "ts_single ''timestamp'' [X \<mapsto> ''gyro_x'', Y \<mapsto> ''gyro_y'', Z \<mapsto> ''gyro_z'']
     (gyro_late\<lparr>columns := [''timestamp'', ''gyro_x'', ''gyro_y'', ''gyro_z'']\<rparr>)"
  by code_simp

lemma ex_single_accel_bad:
  "ts_single ''timestamp'' [X \<mapsto> ''x'', Y \<mapsto> ''y'', Z \<mapsto> ''z''] accel_bad_stamp"
  by code_simp

lemma ex_ready_example:
  "session_ready accel_example gyro_example"
  by (simp add: session_ready_def ex_unify_example ex_detect_accel_example ex_detect_gyro_example
      ex_single_accel_example ex_single_gyro_example)

lemma ex_ready_late:
  "session_ready accel_example gyro_late"
  by (simp add: session_ready_def ex_unify_late ex_detect_accel_example ex_detect_gyro_late
      ex_single_accel_example ex_single_gyro_late)

lemma ex_select_accel_example:
  "select_sensor ''accel'' ''timestamp'' [X \<mapsto> ''ax'', Y \<mapsto> ''ay'', Z \<mapsto> ''az'']
       (accel_example\<lparr>columns := [''timestamp'', ''ax'', ''ay'', ''az'']\<rparr>) =
     Inr \<lparr>columns = [''timestamp'', ''accel_x'', ''accel_y'', ''accel_z''], rows = [[IntNum 3, IntNum 30, IntNum 31, IntNum 32], [IntNum 1, IntNum 10, IntNum 11, IntNum 12], [IntNum 2, IntNum 20, IntNum 21, IntNum 22]]\<rparr>"
  by code_simp

lemma ex_select_gyro_example:
  "select_sensor ''gyro'' ''timestamp'' [X \<mapsto> ''gyro_x'', Y \<mapsto> ''gyro_y'', Z \<mapsto> ''gyro_z'']
       (gyro_example\<lparr>columns := [''timestamp'', ''gyro_x'', ''gyro_y'', ''gyro_z'']\<rparr>) =
     Inr \<lparr>columns = [''timestamp'', ''gyro_x'', ''gyro_y'', ''gyro_z''], rows = [[IntNum 4, IntNum 40, IntNum 41, IntNum 42], [IntNum 2, IntNum 50, IntNum 51, IntNum 52], [IntNum 3, IntNum 60, IntNum 61, IntNum 62]]\<rparr>"
  by code_simp

lemma ex_select_accel_bad:
  "select_sensor ''accel'' ''timestamp'' [X \<mapsto> ''x'', Y \<mapsto> ''y'', Z \<mapsto> ''z''] accel_bad_stamp =
     Inr \<lparr>columns = [''timestamp'', ''accel_x'', ''accel_y'', ''accel_z''], rows = [[Text ''abc'', IntNum 10, IntNum 11, IntNum 12], [Text ''5'', IntNum 20, IntNum 21, IntNum 22]]\<rparr>"
  by code_simp

lemma ex_select_gyro_bad:
  "select_sensor ''gyro'' ''timestamp'' [X \<mapsto> ''x'', Y \<mapsto> ''y'', Z \<mapsto> ''z''] gyro_bad_stamp =
     Inr \<lparr>columns = [''timestamp'', ''gyro_x'', ''gyro_y'', ''gyro_z''], rows = [[Text ''xyz'', IntNum 40, IntNum 41, IntNum 42], [Text ''7'', IntNum 50, IntNum 51, IntNum 52]]\<rparr>"
  by code_simp

lemma ex_select_accel_axes:
  "select_sensor ''accel'' ''x'' [X \<mapsto> ''x'', Y \<mapsto> ''y'', Z \<mapsto> ''z''] accel_axes_only =
     Inr \<lparr>columns = [''accel_x'', ''accel_x'', ''accel_y'', ''accel_z''], rows = [[IntNum 1, IntNum 1, IntNum 11, IntNum 12], [IntNum 2, IntNum 2, IntNum 21, IntNum 22], [IntNum 3, IntNum 3, IntNum 31, IntNum 32]]\<rparr>"
  by code_simp

lemma ex_select_gyro_axes:
  "select_sensor ''gyro'' ''x'' [X \<mapsto> ''x'', Y \<mapsto> ''y'', Z \<mapsto> ''z''] gyro_axes_only =
     Inr \<lparr>columns = [''gyro_x'', ''gyro_x'', ''gyro_y'', ''gyro_z''], rows = [[IntNum 2, IntNum 2, IntNum 51, IntNum 52], [IntNum 3, IntNum 3, IntNum 61, IntNum 62], [IntNum 4, IntNum 4, IntNum 41, IntNum 42]]\<rparr>"
  by code_simp

lemma ex_select_gyro_axes_late:
  "select_sensor ''gyro'' ''x'' [X \<mapsto> ''x'', Y \<mapsto> ''y'', Z \<mapsto> ''z''] gyro_axes_late =
     Inr \<lparr>columns = [''gyro_x'', ''gyro_x'', ''gyro_y'', ''gyro_z''], rows = [[IntNum 7, IntNum 7, IntNum 51, IntNum 52], [IntNum 8, IntNum 8, IntNum 61, IntNum 62]]\<rparr>"
  by code_simp

lemma ex_join_example:
  "join_session f64_of_int parse_digits ''timestamp''
       \<lparr>columns = [''timestamp'', ''accel_x'', ''accel_y'', ''accel_z''], rows = [[IntNum 3, IntNum 30, IntNum 31, IntNum 32], [IntNum 1, IntNum 10, IntNum 11, IntNum 12], [IntNum 2, IntNum 20, IntNum 21, IntNum 22]]\<rparr>
       \<lparr>columns = [''timestamp'', ''gyro_x'', ''gyro_y'', ''gyro_z''], rows = [[IntNum 4, IntNum 40, IntNum 41, IntNum 42], [IntNum 2, IntNum 50, IntNum 51, IntNum 52], [IntNum 3, IntNum 60, IntNum 61, IntNum 62]]\<rparr> =
     Inr \<lparr>columns = OUTPUT_COLS,
          rows = [[IntNum 2, IntNum 20, IntNum 21, IntNum 22, IntNum 50, IntNum 51, IntNum 52],
                  [IntNum 3, IntNum 30, IntNum 31, IntNum 32, IntNum 60, IntNum 61, IntNum 62]]\<rparr>"
  by code_simp

lemma ex_join_bad:
  "join_session f64_of_int parse_digits ''timestamp''
       \<lparr>columns = [''timestamp'', ''accel_x'', ''accel_y'', ''accel_z''], rows = [[Text ''abc'', IntNum 10, IntNum 11, IntNum 12], [Text ''5'', IntNum 20, IntNum 21, IntNum 22]]\<rparr>
       \<lparr>columns = [''timestamp'', ''gyro_x'', ''gyro_y'', ''gyro_z''], rows = [[Text ''xyz'', IntNum 40, IntNum 41, IntNum 42], [Text ''7'', IntNum 50, IntNum 51, IntNum 52]]\<rparr> =
     Inr \<lparr>columns = OUTPUT_COLS,
          rows = [[NaN, IntNum 10, IntNum 11, IntNum 12, IntNum 40, IntNum 41, IntNum 42]]\<rparr>"
  by code_simp

lemma ex_join_axes:
  "join_session f64_of_int parse_digits ''x''
       \<lparr>columns = [''accel_x'', ''accel_x'', ''accel_y'', ''accel_z''], rows = [[IntNum 1, IntNum 1, IntNum 11, IntNum 12], [IntNum 2, IntNum 2, IntNum 21, IntNum 22], [IntNum 3, IntNum 3, IntNum 31, IntNum 32]]\<rparr>
       \<lparr>columns = [''gyro_x'', ''gyro_x'', ''gyro_y'', ''gyro_z''], rows = [[IntNum 2, IntNum 2, IntNum 51, IntNum 52], [IntNum 3, IntNum 3, IntNum 61, IntNum 62], [IntNum 4, IntNum 4, IntNum 41, IntNum 42]]\<rparr> =
     Inl (KeyError ''x'')"
  by code_simp

lemma ex_join_axes_late:
  "join_session f64_of_int parse_digits ''x''
       \<lparr>columns = [''accel_x'', ''accel_x'', ''accel_y'', ''accel_z''], rows = [[IntNum 1, IntNum 1, IntNum 11, IntNum 12], [IntNum 2, IntNum 2, IntNum 21, IntNum 22], [IntNum 3, IntNum 3, IntNum 31, IntNum 32]]\<rparr>
       \<lparr>columns = [''gyro_x'', ''gyro_x'', ''gyro_y'', ''gyro_z''], rows = [[IntNum 7, IntNum 7, IntNum 51, IntNum 52], [IntNum 8, IntNum 8, IntNum 61, IntNum 62]]\<rparr> =
     Inl (KeyError ''x'')"
  by code_simp

lemma ex_merge_example:
  "merge_session f64_of_int parse_digits accel_example gyro_example =
     Inr \<lparr>columns = OUTPUT_COLS,
          rows = [[IntNum 2, IntNum 20, IntNum 21, IntNum 22, IntNum 50, IntNum 51, IntNum 52],
                  [IntNum 3, IntNum 30, IntNum 31, IntNum 32, IntNum 60, IntNum 61, IntNum 62]]\<rparr>"
  by (simp add: merge_session_def prepare_session_def ex_unify_example ex_detect_accel_example
      ex_detect_gyro_example ex_select_accel_example ex_select_gyro_example ex_join_example)

lemma ex_merge_bad:
  "merge_session f64_of_int parse_digits accel_bad_stamp gyro_bad_stamp =
     Inr \<lparr>columns = OUTPUT_COLS,
          rows = [[NaN, IntNum 10, IntNum 11, IntNum 12, IntNum 40, IntNum 41, IntNum 42]]\<rparr>"
  by (simp add: merge_session_def prepare_session_def ex_unify_bad_bad ex_detect_accel_bad
      ex_detect_gyro_bad ex_select_accel_bad ex_select_gyro_bad ex_join_bad)

lemma ex_merge_no_z:
  "merge_session f64_of_int parse_digits accel_no_z gyro_example =
     Inl (ValueError [''timestamp'', ''x'', ''y''] [X \<mapsto> ''x'', Y \<mapsto> ''y''])"
  by (simp add: merge_session_def prepare_session_def ex_unify_no_z ex_detect_no_z)

lemma ex_merge_axes:
  "merge_session f64_of_int parse_digits accel_axes_only gyro_axes_only = Inl (KeyError ''x'')"
  by (simp add: merge_session_def prepare_session_def ex_unify_axes ex_detect_accel_axes
      ex_detect_gyro_axes ex_select_accel_axes ex_select_gyro_axes ex_join_axes)

lemma ex_merge_axes_late:
  "merge_session f64_of_int parse_digits accel_axes_only gyro_axes_late = Inl (KeyError ''x'')"
  by (simp add: merge_session_def prepare_session_def ex_unify_axes_late ex_detect_accel_axes
      ex_detect_gyro_axes_late ex_select_accel_axes ex_select_gyro_axes_late ex_join_axes_late)

lemma ex_stamps_accel_example:
  "timestamp_values f64_of_int parse_digits accel_example = [IntNum 3, IntNum 1, IntNum 2]"
  by code_simp

lemma ex_stamps_gyro_example:
  "timestamp_values f64_of_int parse_digits gyro_example = [IntNum 4, IntNum 2, IntNum 3]"
  by code_simp

lemma ex_stamps_gyro_late:
  "timestamp_values f64_of_int parse_digits gyro_late = [IntNum 7, IntNum 8]"
  by code_simp

lemma ex_stamps_accel_bad:
  "timestamp_values f64_of_int parse_digits accel_bad_stamp = [NaN, FloatNum 5]"
  by code_simp

lemma ex_stamps_gyro_bad:
  "timestamp_values f64_of_int parse_digits gyro_bad_stamp = [NaN, FloatNum 7]"
  by code_simp

lemma ex_stamps_no_z:
  "timestamp_values f64_of_int parse_digits accel_no_z = [IntNum 1, IntNum 2, IntNum 3]"
  by code_simp

lemma ex_stamps_accel_axes:
  "timestamp_values f64_of_int parse_digits accel_axes_only = [IntNum 1, IntNum 2, IntNum 3]"
  by code_simp

lemma ex_stamps_gyro_axes:
  "timestamp_values f64_of_int parse_digits gyro_axes_only = [IntNum 2, IntNum 3, IntNum 4]"
  by code_simp

lemma ex_stamps_gyro_axes_late:
  "timestamp_values f64_of_int parse_digits gyro_axes_late = [IntNum 7, IntNum 8]"
  by code_simp

lemma ex_single_gyro_bad:
  "ts_single ''timestamp'' [X \<mapsto> ''x'', Y \<mapsto> ''y'', Z \<mapsto> ''z''] gyro_bad_stamp"
  by code_simp

lemma ex_ready_bad:
  "session_ready accel_bad_stamp gyro_bad_stamp"
  by (simp add: session_ready_def ex_unify_bad_bad ex_detect_accel_bad ex_detect_gyro_bad
      ex_single_accel_bad ex_single_gyro_bad)

lemma ex_unify_big:
  "unify_timestamps accel_big gyro_big = Inr (''timestamp'', accel_big, gyro_big)"
  by code_simp

lemma ex_detect_accel_big:
  "detect_xyz_columns accel_big = Inr [X \<mapsto> ''x'', Y \<mapsto> ''y'', Z \<mapsto> ''z'']"
  by code_simp

lemma ex_detect_gyro_big:
  "detect_xyz_columns gyro_big = Inr [X \<mapsto> ''x'', Y \<mapsto> ''y'', Z \<mapsto> ''z'']"
  by code_simp

lemma ex_single_accel_big:
  "ts_single ''timestamp'' [X \<mapsto> ''x'', Y \<mapsto> ''y'', Z \<mapsto> ''z''] accel_big"
  by code_simp

lemma ex_single_gyro_big:
  "ts_single ''timestamp'' [X \<mapsto> ''x'', Y \<mapsto> ''y'', Z \<mapsto> ''z''] gyro_big"
  by code_simp

lemma ex_ready_big:
  "session_ready accel_big gyro_big"
  by (simp add: session_ready_def ex_unify_big ex_detect_accel_big ex_detect_gyro_big
      ex_single_accel_big ex_single_gyro_big)

lemma ex_select_accel_big:
  "select_sensor ''accel'' ''timestamp'' [X \<mapsto> ''x'', Y \<mapsto> ''y'', Z \<mapsto> ''z''] accel_big =
     Inr \<lparr>columns = [''timestamp'', ''accel_x'', ''accel_y'', ''accel_z''], rows = [[Text ''abc'', IntNum 10, IntNum 11, IntNum 12], [Text ''9007199254740992'', IntNum 20, IntNum 21, IntNum 22]]\<rparr>"
  by code_simp

lemma ex_select_gyro_big:
  "select_sensor ''gyro'' ''timestamp'' [X \<mapsto> ''x'', Y \<mapsto> ''y'', Z \<mapsto> ''z''] gyro_big =
     Inr \<lparr>columns = [''timestamp'', ''gyro_x'', ''gyro_y'', ''gyro_z''], rows = [[IntNum 9007199254740993, IntNum 40, IntNum 41, IntNum 42]]\<rparr>"
  by code_simp

lemma ex_join_big:
  "join_session f64_of_int parse_digits ''timestamp''
       \<lparr>columns = [''timestamp'', ''accel_x'', ''accel_y'', ''accel_z''], rows = [[Text ''abc'', IntNum 10, IntNum 11, IntNum 12], [Text ''9007199254740992'', IntNum 20, IntNum 21, IntNum 22]]\<rparr>
       \<lparr>columns = [''timestamp'', ''gyro_x'', ''gyro_y'', ''gyro_z''], rows = [[IntNum 9007199254740993, IntNum 40, IntNum 41, IntNum 42]]\<rparr> =
     Inr \<lparr>columns = OUTPUT_COLS,
          rows = [[FloatNum 9007199254740992, IntNum 20, IntNum 21, IntNum 22, IntNum 40, IntNum 41, IntNum 42]]\<rparr>"
  by code_simp

lemma ex_merge_big:
  "merge_session f64_of_int parse_digits accel_big gyro_big =
     Inr \<lparr>columns = OUTPUT_COLS,
          rows = [[FloatNum 9007199254740992, IntNum 20, IntNum 21, IntNum 22, IntNum 40, IntNum 41, IntNum 42]]\<rparr>"
  by (simp add: merge_session_def prepare_session_def ex_unify_big ex_detect_accel_big
      ex_detect_gyro_big ex_select_accel_big ex_select_gyro_big ex_join_big)

lemma ex_stamps_accel_big:
  "timestamp_values f64_of_int parse_digits accel_big = [NaN, FloatNum 9007199254740992]"
  by code_simp

lemma ex_stamps_gyro_big:
  "timestamp_values f64_of_int parse_digits gyro_big = [IntNum 9007199254740993]"
  by code_simp

lemma ex_join_stamps_late:
  "join_stamps f64_of_int parse_digits accel_example gyro_late =
     ([IntNum 3, IntNum 1, IntNum 2], [IntNum 7, IntNum 8])"
  by code_simp

lemma ex_join_stamps_big:
  "join_stamps f64_of_int parse_digits accel_big gyro_big =
     ([NaN, FloatNum 9007199254740992], [FloatNum 9007199254740992])"
  by code_simp

subsection \<open>The claims about merge_session\<close>

lemma key_order_123:
  fixes ks :: "('n::linorder) cell list"
  assumes "mset ks = {#IntNum 1, IntNum 2, IntNum 3#}"
  shows "key_order ks = [IntNum 1, IntNum 2, IntNum 3]"
proof -
  have "set ks = set [IntNum 1, IntNum 2, IntNum 3 :: 'n cell]"
    using assms by (metis mset.simps set_mset_mset)
  then have "key_order ks = key_order [IntNum 1, IntNum 2, IntNum 3 :: 'n cell]"
    by (rule key_order_cong)
  also have "\<dots> = [IntNum 1, IntNum 2, IntNum 3]"
    by (simp add: key_order_def ints_of_def floats_of_def texts_of_def List.map_filter_simps)
  finally show ?thesis .
qed

lemma join_stamps_ints:
  assumes "list_all is_int_cell (timestamp_values to_float parse a)"
    and "list_all is_int_cell (timestamp_values to_float parse g)"
  shows "join_stamps to_float parse a g =
           (timestamp_values to_float parse a, timestamp_values to_float parse g)"
  using assms by (simp add: join_stamps_def column_cast_def Let_def)

text \<open>
  Claim C1, as amended. Let the two tables be ready for the merge: timestamp and axis
  detection succeed on both and, in each, the timestamp column is a single column that is
  not also selected as an axis. If the timestamps of the accelerometer table, coerced to
  numbers, are the integers 1, 2, 3 in some order and those of the gyroscope table are
  the integers 2, 3, 4 in some order, then \<open>merge_session\<close> returns a table of exactly two
  rows whose timestamps are 2 and 3 in this order, and it returns the same table for
  every permutation of the rows of either input.
\<close>

theorem merge_session_overlap:
  fixes to_float :: "int \<Rightarrow> 'n::linorder" and parse :: "string \<Rightarrow> 'n literal option"
    and a g :: "'n frame"
  assumes ready: "session_ready a g"
    and ta: "mset (timestamp_values to_float parse a) = {#IntNum 1, IntNum 2, IntNum 3#}"
    and tg: "mset (timestamp_values to_float parse g) = {#IntNum 2, IntNum 3, IntNum 4#}"
  shows "\<exists>m. merge_session to_float parse a g = Inr m \<and>
             length (rows m) = 2 \<and>
             column_cells ''timestamp'' m = [IntNum 2, IntNum 3] \<and>
             (\<forall>a' g'. columns a' = columns a \<and> mset (rows a') = mset (rows a) \<and>
                      columns g' = columns g \<and> mset (rows g') = mset (rows g) \<longrightarrow>
                      merge_session to_float parse a' g' = Inr m)"
proof -
  obtain C q L R nl nr where C: "''timestamp'' \<notin> set C"
    and keys: "\<And>ra rg. map (\<lambda>r. cell_at r 0) (L ra rg) =
                      fst (join_stamps to_float parse (a\<lparr>rows := ra\<rparr>) (g\<lparr>rows := rg\<rparr>)) \<and>
                    map (\<lambda>r. cell_at r 0) (R ra rg) =
                      snd (join_stamps to_float parse (a\<lparr>rows := ra\<rparr>) (g\<lparr>rows := rg\<rparr>))"
    and perms: "\<And>ra rg ra' rg'. mset ra = mset ra' \<and> mset rg = mset rg' \<Longrightarrow>
                      mset (L ra rg) = mset (L ra' rg') \<and> mset (R ra rg) = mset (R ra' rg')"
    and ms: "\<And>ra rg. merge_session to_float parse (a\<lparr>rows := ra\<rparr>) (g\<lparr>rows := rg\<rparr>) =
              Inr \<lparr>columns = ''timestamp'' # C,
                   rows = map (\<lambda>r. map (cell_at r) (0 # q))
                            (inner_join_rows 0 0 (Suc nl) (Suc nr) (L ra rg) (R ra rg))\<rparr>"
    using merge_session_ready [OF ready, of to_float parse] by blast
  define J where "J = inner_join_rows 0 0 (Suc nl) (Suc nr) (L (rows a) (rows g)) (R (rows a) (rows g))"
  define m where "m = \<lparr>columns = ''timestamp'' # C, rows = map (\<lambda>r. map (cell_at r) (0 # q)) J\<rparr>"
  have sa: "set (timestamp_values to_float parse a) = {IntNum 1, IntNum 2, IntNum 3}"
    using ta by (metis mset.simps set_mset_mset list.simps(15) empty_set)
  have sg: "set (timestamp_values to_float parse g) = {IntNum 2, IntNum 3, IntNum 4}"
    using tg by (metis mset.simps set_mset_mset list.simps(15) empty_set)
  have ia: "list_all is_int_cell (timestamp_values to_float parse a)"
    unfolding list_all_iff sa by simp
  have ig: "list_all is_int_cell (timestamp_values to_float parse g)"
    unfolding list_all_iff sg by simp
  have js: "join_stamps to_float parse a g =
      (timestamp_values to_float parse a, timestamp_values to_float parse g)"
    using ia ig by (rule join_stamps_ints)
  have ka: "map (\<lambda>r. cell_at r 0) (L (rows a) (rows g)) = timestamp_values to_float parse a"
    using keys [of "rows a" "rows g"] by (simp add: js)
  have kg: "map (\<lambda>r. cell_at r 0) (R (rows a) (rows g)) = timestamp_values to_float parse g"
    using keys [of "rows a" "rows g"] by (simp add: js)
  have da: "distinct (timestamp_values to_float parse a)"
  proof -
    have "mset (timestamp_values to_float parse a) = mset [IntNum 1, IntNum 2, IntNum 3 :: 'n cell]"
      using ta by simp
    then have "distinct (timestamp_values to_float parse a) = distinct [IntNum 1, IntNum 2, IntNum 3 :: 'n cell]"
      by (rule mset_eq_imp_distinct_iff)
    then show ?thesis by simp
  qed
  have dg: "distinct (timestamp_values to_float parse g)"
  proof -
    have "mset (timestamp_values to_float parse g) = mset [IntNum 2, IntNum 3, IntNum 4 :: 'n cell]"
      using tg by simp
    then have "distinct (timestamp_values to_float parse g) = distinct [IntNum 2, IntNum 3, IntNum 4 :: 'n cell]"
      by (rule mset_eq_imp_distinct_iff)
    then show ?thesis by simp
  qed
  have dl: "distinct (map (\<lambda>r. cell_at r 0) (L (rows a) (rows g)))" using da by (simp only: ka)
  have dr: "distinct (map (\<lambda>r. cell_at r 0) (R (rows a) (rows g)))" using dg by (simp only: kg)
  have "map (\<lambda>r. cell_at r 0) J =
        filter (\<lambda>k. k \<in> set (map (\<lambda>r. cell_at r 0) (R (rows a) (rows g))))
          (key_order (map (\<lambda>r. cell_at r 0) (L (rows a) (rows g))))"
    unfolding J_def using dl dr by (rule inner_join_rows_keys_distinct)
  also have "\<dots> = filter (\<lambda>k. k \<in> set (timestamp_values to_float parse g))
                    (key_order (timestamp_values to_float parse a))"
    by (simp only: ka kg)
  also have "\<dots> = [IntNum 2, IntNum 3]"
    by (simp add: key_order_123 [OF ta] sg)
  finally have jk: "map (\<lambda>r. cell_at r 0) J = [IntNum 2, IntNum 3]" .
  have r: "merge_session to_float parse a g = Inr m"
    using ms [of "rows a" "rows g"] by (simp add: m_def J_def)
  have len: "length (rows m) = 2"
  proof -
    have "length (rows m) = length (map (\<lambda>r. cell_at r 0) J)" by (simp add: m_def)
    then show ?thesis by (simp only: jk) simp
  qed
  have cc: "column_cells ''timestamp'' m = [IntNum 2, IntNum 3]"
    unfolding m_def column_cells_timestamp_head [OF C] by (rule jk)
  have perm: "merge_session to_float parse a' g' = Inr m"
    if h: "columns a' = columns a" "mset (rows a') = mset (rows a)"
          "columns g' = columns g" "mset (rows g') = mset (rows g)" for a' g' :: "'n frame"
  proof -
    have e: "a' = a\<lparr>rows := rows a'\<rparr>" "g' = g\<lparr>rows := rows g'\<rparr>"
      using h frame_rows_update by blast+
    have p: "mset (L (rows a) (rows g)) = mset (L (rows a') (rows g'))"
      "mset (R (rows a) (rows g)) = mset (R (rows a') (rows g'))"
      using perms [of "rows a" "rows a'" "rows g" "rows g'"] h(2,4) by simp_all
    have "inner_join_rows 0 0 (Suc nl) (Suc nr) (L (rows a) (rows g)) (R (rows a) (rows g)) =
          inner_join_rows 0 0 (Suc nl) (Suc nr) (L (rows a') (rows g')) (R (rows a') (rows g'))"
      using p(1) dl p(2) dr by (rule inner_join_rows_perm)
    then have "merge_session to_float parse (a\<lparr>rows := rows a'\<rparr>) (g\<lparr>rows := rows g'\<rparr>) = Inr m"
      unfolding ms m_def J_def by simp
    then show ?thesis using e by simp
  qed
  show ?thesis using r len cc perm by blast
qed

theorem merge_session_overlap_witness:
  "session_ready accel_example gyro_example \<and>
   mset (timestamp_values f64_of_int parse_digits accel_example) = {#IntNum 1, IntNum 2, IntNum 3#} \<and>
   mset (timestamp_values f64_of_int parse_digits gyro_example) = {#IntNum 2, IntNum 3, IntNum 4#} \<and>
   merge_session f64_of_int parse_digits accel_example gyro_example =
     Inr \<lparr>columns = OUTPUT_COLS,
          rows = [[IntNum 2, IntNum 20, IntNum 21, IntNum 22, IntNum 50, IntNum 51, IntNum 52],
                  [IntNum 3, IntNum 30, IntNum 31, IntNum 32, IntNum 60, IntNum 61, IntNum 62]]\<rparr> \<and>
   merge_session f64_of_int parse_digits
       (accel_example\<lparr>rows := rev (rows accel_example)\<rparr>)
       (gyro_example\<lparr>rows := rev (rows gyro_example)\<rparr>) =
     merge_session f64_of_int parse_digits accel_example gyro_example"
proof -
  have ta: "mset (timestamp_values f64_of_int parse_digits accel_example) = {#IntNum 1, IntNum 2, IntNum 3#}"
    by (simp add: ex_stamps_accel_example)
  have tg: "mset (timestamp_values f64_of_int parse_digits gyro_example) = {#IntNum 2, IntNum 3, IntNum 4#}"
    by (simp add: ex_stamps_gyro_example)
  obtain m where m: "merge_session f64_of_int parse_digits accel_example gyro_example = Inr m"
    and p: "\<And>a' g'. columns a' = columns accel_example \<and> mset (rows a') = mset (rows accel_example) \<and>
                     columns g' = columns gyro_example \<and> mset (rows g') = mset (rows gyro_example) \<Longrightarrow>
                     merge_session f64_of_int parse_digits a' g' = Inr m"
    using merge_session_overlap [OF ex_ready_example ta tg] by blast
  have "merge_session f64_of_int parse_digits
       (accel_example\<lparr>rows := rev (rows accel_example)\<rparr>)
       (gyro_example\<lparr>rows := rev (rows gyro_example)\<rparr>) = Inr m"
    by (rule p) simp
  then have "merge_session f64_of_int parse_digits
       (accel_example\<lparr>rows := rev (rows accel_example)\<rparr>)
       (gyro_example\<lparr>rows := rev (rows gyro_example)\<rparr>) =
     merge_session f64_of_int parse_digits accel_example gyro_example"
    using m by simp
  then show ?thesis using ex_ready_example ta tg ex_merge_example by blast
qed

text \<open>
  The claim as stated fails on tables that are not ready. With timestamps 1, 2, 3 and
  2, 3, 4: an accelerometer table without a z axis makes \<open>merge_session\<close> raise the
  \<open>ValueError\<close> of \<open>detect_xyz_columns\<close>; and on two tables whose only columns are \<open>x, y, z\<close>
  the fallback takes \<open>x\<close> as the timestamp column, the token pass takes it as the x axis,
  the renaming to \<open>accel_x\<close> and \<open>gyro_x\<close> removes the join key, and the join raises
  \<open>KeyError\<close>.
\<close>

theorem merge_session_overlap_counterexample:
  "timestamp_values f64_of_int parse_digits accel_no_z = [IntNum 1, IntNum 2, IntNum 3] \<and>
   timestamp_values f64_of_int parse_digits gyro_example = [IntNum 4, IntNum 2, IntNum 3] \<and>
   merge_session f64_of_int parse_digits accel_no_z gyro_example =
     Inl (ValueError [''timestamp'', ''x'', ''y''] [X \<mapsto> ''x'', Y \<mapsto> ''y'']) \<and>
   timestamp_values f64_of_int parse_digits accel_axes_only = [IntNum 1, IntNum 2, IntNum 3] \<and>
   timestamp_values f64_of_int parse_digits gyro_axes_only = [IntNum 2, IntNum 3, IntNum 4] \<and>
   merge_session f64_of_int parse_digits accel_axes_only gyro_axes_only = Inl (KeyError ''x'')"
  using ex_stamps_no_z ex_stamps_gyro_example ex_merge_no_z ex_stamps_accel_axes
    ex_stamps_gyro_axes ex_merge_axes
  by blast


text \<open>
  Claim C2. The claim is that a row whose timestamp fails the coercion to a number, and
  so becomes the missing marker, never produces a row of the merged output, and that no
  row of the output of \<open>merge_session\<close> has a missing timestamp. The code does not keep
  it. In the two tables below the timestamps \<open>abc\<close> and \<open>xyz\<close> fail the coercion. Timestamp
  and axis detection succeed on both tables, and \<open>merge_session\<close> returns a table with one
  row, made of the row stamped \<open>abc\<close> and the row stamped \<open>xyz\<close>, whose timestamp is the
  missing marker.
\<close>

theorem merge_session_null_timestamps_joined:
  "column_cells ''timestamp'' accel_bad_stamp = [Text ''abc'', Text ''5''] \<and>
   column_cells ''timestamp'' gyro_bad_stamp = [Text ''xyz'', Text ''7''] \<and>
   timestamp_values f64_of_int parse_digits accel_bad_stamp = [NaN, FloatNum 5] \<and>
   timestamp_values f64_of_int parse_digits gyro_bad_stamp = [NaN, FloatNum 7] \<and>
   session_ready accel_bad_stamp gyro_bad_stamp \<and>
   merge_session f64_of_int parse_digits accel_bad_stamp gyro_bad_stamp =
     Inr \<lparr>columns = OUTPUT_COLS,
          rows = [[NaN, IntNum 10, IntNum 11, IntNum 12, IntNum 40, IntNum 41, IntNum 42]]\<rparr>"
proof -
  have "column_cells ''timestamp'' accel_bad_stamp = [Text ''abc'', Text ''5'']"
    "column_cells ''timestamp'' gyro_bad_stamp = [Text ''xyz'', Text ''7'']"
    by code_simp+
  then show ?thesis
    using ex_stamps_accel_bad ex_stamps_gyro_bad ex_ready_bad ex_merge_bad by blast
qed


text \<open>
  Claim C6, as amended. Let the two tables be ready for the merge, and let their
  timestamps, as the join compares them, have no value in common: the timestamps are
  coerced to numbers, and unless the timestamps of both tables are all integers, those of
  both tables are converted to floating point; a timestamp that is missing in both tables
  is a value in common. Then \<open>merge_session\<close> raises no error and returns a table with no
  rows, whose first column is \<open>timestamp\<close>.
\<close>

theorem merge_session_disjoint:
  fixes to_float :: "int \<Rightarrow> 'n::linorder" and parse :: "string \<Rightarrow> 'n literal option"
    and a g :: "'n frame"
  assumes ready: "session_ready a g"
    and disj: "set (fst (join_stamps to_float parse a g)) \<inter>
               set (snd (join_stamps to_float parse a g)) = {}"
  shows "\<exists>m. merge_session to_float parse a g = Inr m \<and> rows m = [] \<and>
             hd (columns m) = ''timestamp''"
proof -
  obtain C q L R nl nr where C: "''timestamp'' \<notin> set C"
    and keys: "\<And>ra rg. map (\<lambda>r. cell_at r 0) (L ra rg) =
                      fst (join_stamps to_float parse (a\<lparr>rows := ra\<rparr>) (g\<lparr>rows := rg\<rparr>)) \<and>
                    map (\<lambda>r. cell_at r 0) (R ra rg) =
                      snd (join_stamps to_float parse (a\<lparr>rows := ra\<rparr>) (g\<lparr>rows := rg\<rparr>))"
    and ms: "\<And>ra rg. merge_session to_float parse (a\<lparr>rows := ra\<rparr>) (g\<lparr>rows := rg\<rparr>) =
              Inr \<lparr>columns = ''timestamp'' # C,
                   rows = map (\<lambda>r. map (cell_at r) (0 # q))
                            (inner_join_rows 0 0 (Suc nl) (Suc nr) (L ra rg) (R ra rg))\<rparr>"
    using merge_session_ready [OF ready, of to_float parse] by blast
  have ka: "map (\<lambda>r. cell_at r 0) (L (rows a) (rows g)) = fst (join_stamps to_float parse a g)"
    using keys [of "rows a" "rows g"] by simp
  have kg: "map (\<lambda>r. cell_at r 0) (R (rows a) (rows g)) = snd (join_stamps to_float parse a g)"
    using keys [of "rows a" "rows g"] by simp
  have "inner_join_rows 0 0 (Suc nl) (Suc nr) (L (rows a) (rows g)) (R (rows a) (rows g)) = []"
    by (rule inner_join_rows_disjoint) (simp only: ka kg disj)
  then have "merge_session to_float parse a g = Inr \<lparr>columns = ''timestamp'' # C, rows = []\<rparr>"
    using ms [of "rows a" "rows g"] by simp
  then show ?thesis by simp
qed

theorem merge_session_disjoint_witness:
  "session_ready accel_example gyro_late \<and>
   join_stamps f64_of_int parse_digits accel_example gyro_late =
     ([IntNum 3, IntNum 1, IntNum 2], [IntNum 7, IntNum 8]) \<and>
   (\<exists>m. merge_session f64_of_int parse_digits accel_example gyro_late = Inr m \<and> rows m = [] \<and>
        hd (columns m) = ''timestamp'')"
proof -
  have d: "set (fst (join_stamps f64_of_int parse_digits accel_example gyro_late)) \<inter>
     set (snd (join_stamps f64_of_int parse_digits accel_example gyro_late)) = {}"
    by (simp add: ex_join_stamps_late)
  have "\<exists>m. merge_session f64_of_int parse_digits accel_example gyro_late = Inr m \<and> rows m = [] \<and>
        hd (columns m) = ''timestamp''"
    using ex_ready_late d by (rule merge_session_disjoint)
  then show ?thesis using ex_ready_late ex_join_stamps_late by blast
qed

text \<open>
  The claim as stated fails twice. On two tables whose only columns are \<open>x, y, z\<close>
  detection succeeds, with \<open>x\<close> both the timestamp column and the x axis, and the join
  raises \<open>KeyError\<close> although the timestamps 1, 2, 3 and 7, 8 are disjoint. And the tables
  with the timestamps \<open>abc\<close>, \<open>9007199254740992\<close> and \<open>9007199254740993\<close> have no timestamp
  in common, before the coercion and after it, yet the output has one row: the
  timestamps of the first table are floating point numbers after the coercion, because
  one of them is missing, the join converts the integer of the second table to floating
  point, and the conversion rounds it to \<open>9007199254740992\<close>.
\<close>

theorem merge_session_disjoint_counterexample:
  "choose_timestamp_column accel_axes_only = Inr ''x'' \<and>
   choose_timestamp_column gyro_axes_late = Inr ''x'' \<and>
   detect_xyz_columns accel_axes_only = Inr [X \<mapsto> ''x'', Y \<mapsto> ''y'', Z \<mapsto> ''z''] \<and>
   detect_xyz_columns gyro_axes_late = Inr [X \<mapsto> ''x'', Y \<mapsto> ''y'', Z \<mapsto> ''z''] \<and>
   timestamp_values f64_of_int parse_digits accel_axes_only = [IntNum 1, IntNum 2, IntNum 3] \<and>
   timestamp_values f64_of_int parse_digits gyro_axes_late = [IntNum 7, IntNum 8] \<and>
   merge_session f64_of_int parse_digits accel_axes_only gyro_axes_late = Inl (KeyError ''x'') \<and>
   column_cells ''timestamp'' accel_big = [Text ''abc'', Text ''9007199254740992''] \<and>
   column_cells ''timestamp'' gyro_big = [IntNum 9007199254740993] \<and>
   session_ready accel_big gyro_big \<and>
   timestamp_values f64_of_int parse_digits accel_big = [NaN, FloatNum 9007199254740992] \<and>
   timestamp_values f64_of_int parse_digits gyro_big = [IntNum 9007199254740993] \<and>
   join_stamps f64_of_int parse_digits accel_big gyro_big =
     ([NaN, FloatNum 9007199254740992], [FloatNum 9007199254740992]) \<and>
   merge_session f64_of_int parse_digits accel_big gyro_big =
     Inr \<lparr>columns = OUTPUT_COLS,
          rows = [[FloatNum 9007199254740992, IntNum 20, IntNum 21, IntNum 22,
                   IntNum 40, IntNum 41, IntNum 42]]\<rparr>"
proof -
  have c: "choose_timestamp_column accel_axes_only = Inr ''x''"
    "choose_timestamp_column gyro_axes_late = Inr ''x''"
    by code_simp+
  have d: "column_cells ''timestamp'' accel_big = [Text ''abc'', Text ''9007199254740992'']"
    "column_cells ''timestamp'' gyro_big = [IntNum 9007199254740993]"
    by code_simp+
  show ?thesis
    using c d ex_detect_accel_axes ex_detect_gyro_axes_late ex_stamps_accel_axes
      ex_stamps_gyro_axes_late ex_merge_axes_late ex_ready_big
      ex_stamps_accel_big ex_stamps_gyro_big ex_join_stamps_big ex_merge_big
    by blast
qed

end
